theory Spec2Isabelle
  imports Main
begin

section \<open>Values, syntax trees and Python exceptions\<close>

text \<open>
  The evaluator \<open>runinstr\<close> of \<open>floop.py\<close> walks the tuples that the transformer \<open>Sema\<close>
  builds from a parse tree. The tuples are tagged by their first component; the grammar
  fixes which tags may occur where, and the datatypes below are those tuples, sorted by
  the syntactic category of the grammar they come from:
  \<^item> \<open>expr\<close>: \<open>("bool", b)\<close>, \<open>("num", n)\<close>, \<open>("cellfetch", i)\<close>, \<open>("paramfetch", p)\<close>,
    \<open>("eq" | "lt" | "gt" | "plus" | "times", a, b)\<close>, \<open>("call", procname, args)\<close>;
  \<^item> \<open>lvalue\<close>: \<open>("cell", i)\<close>;
  \<^item> \<open>stmt\<close>: \<open>("loop", bound, block)\<close> with \<open>bound\<close> an expression or Python's \<open>None\<close>,
    \<open>("cond", test, block)\<close>, \<open>("quit", n)\<close>, \<open>("abort", n)\<close>, \<open>("assign", lvalue, expr)\<close>;
  \<^item> \<open>block\<close>: \<open>("block", blocknum, stmts)\<close>;
  \<^item> \<open>toplevel\<close>: \<open>("decl", procname, params, block)\<close> or a call.

  The values an expression evaluates to are Python ints and bools.
\<close>

datatype val = IntV int | BoolV bool

datatype binop = Eq | Lt | Gt | Plus | Times

datatype expr =
    EBool bool
  | ENum int
  | ECellfetch int
  | EParamfetch string
  | EOp binop expr expr
  | ECall string "expr list"

datatype lvalue = LCell int

datatype stmt =
    SLoop "expr option" block
  | SCond expr block
  | SQuit int
  | SAbort int
  | SAssign lvalue expr
and block = Block int "stmt list"

datatype toplevel =
    TDecl string "string list" block
  | TCall string "expr list"

text \<open>The class \<open>Cell\<close>: the object an lvalue evaluates to.\<close>

datatype cellobj = Cell (index: int)

text \<open>
  Exceptions. \<open>Abort\<close> and \<open>Break\<close> are the two classes of the source, each carrying a
  \<open>blocknum\<close>; the others are the exceptions Python itself raises in \<open>runinstr\<close>: a
  \<open>KeyError\<close> with the missing key for a failed dictionary lookup, a \<open>TypeError\<close> for
  unpacking \<open>None\<close>, an \<open>AttributeError\<close> for the call of the missing method \<open>str\<close>
  of an exception object. \<open>IndexError\<close> and \<open>ValueError\<close> belong to the block validator
  below, on a tree that the grammar does not produce.
\<close>

datatype key = IntKey int | StrKey string

datatype pyerr = KeyError key | TypeError | AttributeError | IndexError | ValueError

datatype exn = Abort int | Break int | PyErr pyerr

datatype 'a res = Ret 'a | Raise exn

text \<open>
  Dictionaries are maps. The cell dictionaries are objects that \<open>runinstr\<close> mutates in
  place and passes by reference, and a call creates a new one; so they live in a heap, a
  list of dictionaries indexed by address, and the evaluator carries the address \<open>c\<close> of
  its current cell dictionary. A new dictionary is appended to the heap.
\<close>

type_synonym cells = "int \<rightharpoonup> val"
type_synonym heap = "cells list"
type_synonym params = "string \<rightharpoonup> val"
type_synonym decls = "string \<rightharpoonup> (string list \<times> block)"

text \<open>
  An evaluation returns a result (a value or a raised exception) and the heap it leaves
  behind, or \<open>None\<close> when the fuel ran out: the source's \<open>while True\<close> and its
  recursion through procedure calls need not terminate. The limit that Python puts on
  the depth of recursion is not modelled.
\<close>

type_synonym 'a outcome = "('a res \<times> heap) option"

section \<open>Python's operators on ints and bools\<close>

text \<open>\<open>bool\<close> is a subclass of \<open>int\<close>: \<open>True\<close> is 1 and \<open>False\<close> is 0 in arithmetic and comparisons.\<close>

fun as_int :: "val \<Rightarrow> int" where
  "as_int (IntV k) = k"
| "as_int (BoolV b) = (if b then 1 else 0)"

text \<open>The truth value of \<open>if cond:\<close>.\<close>

fun truthy :: "val \<Rightarrow> bool" where
  "truthy (IntV k) = (k \<noteq> 0)"
| "truthy (BoolV b) = b"

text \<open>\<open>a == b\<close>, \<open>a < b\<close>, \<open>a > b\<close>, \<open>a + b\<close>, \<open>a * b\<close>, in the order of the source's branches.\<close>

fun binop_apply :: "binop \<Rightarrow> val \<Rightarrow> val \<Rightarrow> val" where
  "binop_apply Eq a b = BoolV (as_int a = as_int b)"
| "binop_apply Lt a b = BoolV (as_int a < as_int b)"
| "binop_apply Gt a b = BoolV (as_int a > as_int b)"
| "binop_apply Plus a b = IntV (as_int a + as_int b)"
| "binop_apply Times a b = IntV (as_int a * as_int b)"

text \<open>\<open>dict(zip(funcparams, funcargs))\<close>: pairs up to the shorter list, a later pair winning.\<close>

definition dict_zip :: "string list \<Rightarrow> val list \<Rightarrow> params" where
  "dict_zip funcparams funcargs = map_of (rev (zip funcparams funcargs))"

text \<open>\<open>False if procname.endswith("?") else 0\<close>.\<close>

definition endswith_qmark :: "string \<Rightarrow> bool" where
  "endswith_qmark procname = (procname \<noteq> [] \<and> last procname = CHR ''?'')"

definition default_output :: "string \<Rightarrow> val" where
  "default_output procname = (if endswith_qmark procname then BoolV False else IntV 0)"

fun blocknum_of :: "block \<Rightarrow> int" where
  "blocknum_of (Block blocknum stmts) = blocknum"

fun runinstr_lvalue :: "lvalue \<Rightarrow> cellobj" where
  "runinstr_lvalue (LCell i) = Cell i"

section \<open>The evaluator\<close>

text \<open>
  \<open>runinstr\<close>, split by the category of the tuple it is given, and \<open>run\<close>. The first
  argument is the fuel: every call of one of these functions by another passes one unit
  less. \<open>runinstr_args\<close> is the loop that evaluates the arguments of a call, \<open>mu_loop\<close>
  the \<open>while True\<close> loop, \<open>for_range\<close> the loop \<open>for i in range(bound)\<close> with the number
  of passes still to make.
\<close>

function (sequential) runinstr_expr :: "nat \<Rightarrow> expr \<Rightarrow> decls \<Rightarrow> heap \<Rightarrow> nat \<Rightarrow> params \<Rightarrow> val outcome"
and runinstr_args :: "nat \<Rightarrow> expr list \<Rightarrow> decls \<Rightarrow> heap \<Rightarrow> nat \<Rightarrow> params \<Rightarrow> val list outcome"
and runinstr_stmt :: "nat \<Rightarrow> stmt \<Rightarrow> decls \<Rightarrow> heap \<Rightarrow> nat \<Rightarrow> params \<Rightarrow> unit outcome"
and runinstr_block :: "nat \<Rightarrow> block \<Rightarrow> decls \<Rightarrow> heap \<Rightarrow> nat \<Rightarrow> params \<Rightarrow> unit outcome"
and run :: "nat \<Rightarrow> stmt list \<Rightarrow> decls \<Rightarrow> heap \<Rightarrow> nat \<Rightarrow> params \<Rightarrow> unit outcome"
and mu_loop :: "nat \<Rightarrow> block \<Rightarrow> decls \<Rightarrow> heap \<Rightarrow> nat \<Rightarrow> params \<Rightarrow> unit outcome"
and for_range :: "nat \<Rightarrow> nat \<Rightarrow> block \<Rightarrow> decls \<Rightarrow> heap \<Rightarrow> nat \<Rightarrow> params \<Rightarrow> unit outcome"
where
  "runinstr_expr 0 e decls h c ps = None"
| "runinstr_expr (Suc n) (EBool b) decls h c ps = Some (Ret (BoolV b), h)"
| "runinstr_expr (Suc n) (ENum k) decls h c ps = Some (Ret (IntV k), h)"
| "runinstr_expr (Suc n) (EOp instr x y) decls h c ps =
     (case runinstr_expr n x decls h c ps of
        None \<Rightarrow> None
      | Some (Raise e, h1) \<Rightarrow> Some (Raise e, h1)
      | Some (Ret a, h1) \<Rightarrow>
          (case runinstr_expr n y decls h1 c ps of
             None \<Rightarrow> None
           | Some (Raise e, h2) \<Rightarrow> Some (Raise e, h2)
           | Some (Ret b, h2) \<Rightarrow> Some (Ret (binop_apply instr a b), h2)))"
| "runinstr_expr (Suc n) (ECellfetch i) decls h c ps =
     (case (h ! c) i of
        None \<Rightarrow> Some (Raise (PyErr (KeyError (IntKey i))), h)
      | Some v \<Rightarrow> Some (Ret v, h))"
| "runinstr_expr (Suc n) (EParamfetch p) decls h c ps =
     (case ps p of
        None \<Rightarrow> Some (Raise (PyErr (KeyError (StrKey p))), h)
      | Some v \<Rightarrow> Some (Ret v, h))"
| "runinstr_expr (Suc n) (ECall procname args) decls h c ps =
     (case runinstr_args n args decls h c ps of
        None \<Rightarrow> None
      | Some (Raise e, h1) \<Rightarrow> Some (Raise e, h1)
      | Some (Ret funcargs, h1) \<Rightarrow>
          (case decls procname of
             None \<Rightarrow> Some (Raise (PyErr (KeyError (StrKey procname))), h1)
           | Some (funcparams, block) \<Rightarrow>
               (case runinstr_block n block decls
                       (h1 @ [[-1 \<mapsto> default_output procname]]) (length h1)
                       (dict_zip funcparams funcargs) of
                  None \<Rightarrow> None
                | Some (Raise (Abort a), h2) \<Rightarrow> Some (Raise (PyErr AttributeError), h2)
                | Some (Raise (Break b), h2) \<Rightarrow> Some (Raise (PyErr AttributeError), h2)
                | Some (Raise (PyErr e), h2) \<Rightarrow> Some (Raise (PyErr e), h2)
                | Some (Ret u, h2) \<Rightarrow>
                    (case (h2 ! length h1) (-1) of
                       None \<Rightarrow> Some (Raise (PyErr (KeyError (IntKey (-1)))), h2)
                     | Some v \<Rightarrow> Some (Ret v, h2)))))"
| "runinstr_args n [] decls h c ps = Some (Ret [], h)"
| "runinstr_args 0 (arg # args) decls h c ps = None"
| "runinstr_args (Suc n) (arg # args) decls h c ps =
     (case runinstr_expr n arg decls h c ps of
        None \<Rightarrow> None
      | Some (Raise e, h1) \<Rightarrow> Some (Raise e, h1)
      | Some (Ret v, h1) \<Rightarrow>
          (case runinstr_args n args decls h1 c ps of
             None \<Rightarrow> None
           | Some (Raise e, h2) \<Rightarrow> Some (Raise e, h2)
           | Some (Ret vs, h2) \<Rightarrow> Some (Ret (v # vs), h2)))"
| "runinstr_stmt 0 s decls h c ps = None"
| "runinstr_stmt (Suc n) (SAbort blocknum) decls h c ps = Some (Raise (Abort blocknum), h)"
| "runinstr_stmt (Suc n) (SQuit blocknum) decls h c ps = Some (Raise (Break blocknum), h)"
| "runinstr_stmt (Suc n) (SCond test block) decls h c ps =
     (case runinstr_expr n test decls h c ps of
        None \<Rightarrow> None
      | Some (Raise e, h1) \<Rightarrow> Some (Raise e, h1)
      | Some (Ret cond, h1) \<Rightarrow>
          (if truthy cond then runinstr_block n block decls h1 c ps else Some (Ret (), h1)))"
| "runinstr_stmt (Suc n) (SAssign lv e) decls h c ps =
     (case runinstr_expr n e decls h c ps of
        None \<Rightarrow> None
      | Some (Raise x, h1) \<Rightarrow> Some (Raise x, h1)
      | Some (Ret v, h1) \<Rightarrow>
          Some (Ret (), h1[c := (h1 ! c)(index (runinstr_lvalue lv) \<mapsto> v)]))"
| "runinstr_stmt (Suc n) (SLoop bound block) decls h c ps =
     (case (case bound of
              None \<Rightarrow> mu_loop n block decls h c ps
            | Some b \<Rightarrow> Some (Ret (), h)) of
        None \<Rightarrow> None
      | Some (Raise e, h1) \<Rightarrow> Some (Raise e, h1)
      | Some (Ret u, h1) \<Rightarrow>
          (case bound of
             None \<Rightarrow> Some (Raise (PyErr TypeError), h1)
           | Some b \<Rightarrow>
               (case runinstr_expr n b decls h1 c ps of
                  None \<Rightarrow> None
                | Some (Raise e, h2) \<Rightarrow> Some (Raise e, h2)
                | Some (Ret v, h2) \<Rightarrow> for_range n (nat (as_int v)) block decls h2 c ps)))"
| "runinstr_block 0 b decls h c ps = None"
| "runinstr_block (Suc n) (Block blocknum stmts) decls h c ps =
     (case run n stmts decls h c ps of
        None \<Rightarrow> None
      | Some (Raise (Break b), h1) \<Rightarrow>
          (if b \<noteq> blocknum then Some (Raise (Break b), h1) else Some (Ret (), h1))
      | Some (Raise e, h1) \<Rightarrow> Some (Raise e, h1)
      | Some (Ret u, h1) \<Rightarrow> Some (Ret (), h1))"
| "run n [] decls h c ps = Some (Ret (), h)"
| "run 0 (tup # instrs) decls h c ps = None"
| "run (Suc n) (tup # instrs) decls h c ps =
     (case runinstr_stmt n tup decls h c ps of
        None \<Rightarrow> None
      | Some (Raise e, h1) \<Rightarrow> Some (Raise e, h1)
      | Some (Ret u, h1) \<Rightarrow> run n instrs decls h1 c ps)"
| "mu_loop 0 block decls h c ps = None"
| "mu_loop (Suc n) block decls h c ps =
     (case runinstr_block n block decls h c ps of
        None \<Rightarrow> None
      | Some (Raise (Abort a), h1) \<Rightarrow>
          (if a = blocknum_of block then Some (Ret (), h1) else Some (Raise (Abort a), h1))
      | Some (Raise e, h1) \<Rightarrow> Some (Raise e, h1)
      | Some (Ret u, h1) \<Rightarrow> mu_loop n block decls h1 c ps)"
| "for_range n 0 block decls h c ps = Some (Ret (), h)"
| "for_range 0 (Suc k) block decls h c ps = None"
| "for_range (Suc n) (Suc k) block decls h c ps =
     (case runinstr_block n block decls h c ps of
        None \<Rightarrow> None
      | Some (Raise (Abort a), h1) \<Rightarrow>
          (if a = blocknum_of block then Some (Ret (), h1) else Some (Raise (Abort a), h1))
      | Some (Raise e, h1) \<Rightarrow> Some (Raise e, h1)
      | Some (Ret u, h1) \<Rightarrow> for_range n k block decls h1 c ps)"
  by pat_completeness auto

text \<open>Every recursive call passes less fuel, whichever of the seven functions it enters.\<close>

termination
  by (relation "measure (case_sum (case_sum fst (case_sum fst fst))
        (case_sum (case_sum fst fst) (case_sum fst fst)))") simp_all


section \<open>The top level\<close>

text \<open>
  At the top level \<open>run\<close> walks declarations and calls. Only here can \<open>runinstr\<close> meet a
  \<open>("decl", procname, params, block)\<close>, which it stores in \<open>decls\<close>; \<open>run\<close> returns what
  the last instruction returned, \<open>None\<close> for a declaration.
\<close>

fun runinstr_top :: "nat \<Rightarrow> toplevel \<Rightarrow> decls \<Rightarrow> heap \<Rightarrow> nat \<Rightarrow> params
    \<Rightarrow> (val option res \<times> decls \<times> heap) option" where
  "runinstr_top n (TDecl procname params block) decls h c ps =
     Some (Ret None, decls(procname \<mapsto> (params, block)), h)"
| "runinstr_top n (TCall procname args) decls h c ps =
     (case runinstr_expr n (ECall procname args) decls h c ps of
        None \<Rightarrow> None
      | Some (Raise e, h1) \<Rightarrow> Some (Raise e, decls, h1)
      | Some (Ret v, h1) \<Rightarrow> Some (Ret (Some v), decls, h1))"

fun run_top :: "nat \<Rightarrow> toplevel list \<Rightarrow> val option \<Rightarrow> decls \<Rightarrow> heap \<Rightarrow> nat \<Rightarrow> params
    \<Rightarrow> (val option res \<times> decls \<times> heap) option" where
  "run_top n [] res decls h c ps = Some (Ret res, decls, h)"
| "run_top n (tup # instrs) res decls h c ps =
     (case runinstr_top n tup decls h c ps of
        None \<Rightarrow> None
      | Some (Raise e, decls1, h1) \<Rightarrow> Some (Raise e, decls1, h1)
      | Some (Ret res1, decls1, h1) \<Rightarrow> run_top n instrs res1 decls1 h1 c ps)"

text \<open>\<open>run(ev, {}, {}, {})\<close>: no declarations, an empty cell dictionary (at address 0), no parameters.\<close>

definition main_run :: "nat \<Rightarrow> toplevel list \<Rightarrow> (val option res \<times> decls \<times> heap) option" where
  "main_run n ev = run_top n ev None Map.empty [Map.empty] 0 Map.empty"

section \<open>Heap frames\<close>

text \<open>
  Two relations between the heap before and the heap after an evaluation. \<open>preserved\<close>:
  every dictionary that existed before is still there, unchanged. \<open>frame c\<close>: every
  dictionary that existed before is unchanged but the one at address \<open>c\<close>, which has
  lost no key. \<open>keeps R f\<close>: every evaluation by \<open>f\<close> that returns relates its two heaps
  by \<open>R\<close>.
\<close>

definition preserved :: "heap \<Rightarrow> heap \<Rightarrow> bool" where
  "preserved h h' \<longleftrightarrow> length h \<le> length h' \<and> (\<forall>a<length h. h' ! a = h ! a)"

definition frame :: "nat \<Rightarrow> heap \<Rightarrow> heap \<Rightarrow> bool" where
  "frame c h h' \<longleftrightarrow> length h \<le> length h' \<and> (\<forall>a<length h. a \<noteq> c \<longrightarrow> h' ! a = h ! a)
     \<and> dom (h ! c) \<subseteq> dom (h' ! c)"

definition keeps :: "(nat \<Rightarrow> heap \<Rightarrow> heap \<Rightarrow> bool)
    \<Rightarrow> ('x \<Rightarrow> decls \<Rightarrow> heap \<Rightarrow> nat \<Rightarrow> params \<Rightarrow> 'a outcome) \<Rightarrow> bool" where
  "keeps R f \<longleftrightarrow>
     (\<forall>x decls h c ps r h'. c < length h \<longrightarrow> f x decls h c ps = Some (r, h') \<longrightarrow> R c h h')"

text \<open>
  \<open>reads_output f\<close>: an evaluation by \<open>f\<close> on a cell dictionary that holds the output
  cell -1 does not end with the \<open>KeyError\<close> of a read of cell -1.
\<close>

definition reads_output :: "('x \<Rightarrow> decls \<Rightarrow> heap \<Rightarrow> nat \<Rightarrow> params \<Rightarrow> 'a outcome) \<Rightarrow> bool" where
  "reads_output f \<longleftrightarrow>
     (\<forall>x decls h c ps r h'. c < length h \<longrightarrow> -1 \<in> dom (h ! c) \<longrightarrow> f x decls h c ps = Some (r, h')
        \<longrightarrow> r \<noteq> Raise (PyErr (KeyError (IntKey (-1)))))"

text \<open>
  \<open>passes n j block decls h c ps\<close> is the heap after \<open>j\<close> evaluations of \<open>block\<close> one after
  the other, each returning normally, all of them on the cell dictionary at \<open>c\<close> and
  with the parameters \<open>ps\<close>, each starting from the heap the one before left; the fuel
  is handed out as \<open>for_range\<close> does.
\<close>

fun passes :: "nat \<Rightarrow> nat \<Rightarrow> block \<Rightarrow> decls \<Rightarrow> heap \<Rightarrow> nat \<Rightarrow> params \<Rightarrow> heap option" where
  "passes n 0 block decls h c ps = Some h"
| "passes 0 (Suc j) block decls h c ps = None"
| "passes (Suc n) (Suc j) block decls h c ps =
     (case runinstr_block n block decls h c ps of
        Some (Ret u, h1) \<Rightarrow> passes n j block decls h1 c ps
      | _ \<Rightarrow> None)"

section \<open>The parse tree and the block validator\<close>

text \<open>
  The parser library (lark) is not part of the repository. Its parse tree is a \<open>Tree\<close>
  with the name of a grammar rule in \<open>data\<close> and a list of children, each a \<open>Tree\<close> or a
  \<open>Token\<close>; a token is a string that also carries its terminal's name and the line and
  column where it was read.
\<close>

datatype token = Token (ttype: string) (tvalue: string) (line: nat) (column: nat)

datatype tree = Tree (data: string) (children: "child list")
and child = Sub tree | Tok token

fun child_trees :: "child list \<Rightarrow> tree list" where
  "child_trees [] = []"
| "child_trees (Sub t # cs) = t # child_trees cs"
| "child_trees (Tok k # cs) = child_trees cs"

primrec tree_size :: "tree \<Rightarrow> nat" and child_size :: "child \<Rightarrow> nat" where
  "tree_size (Tree d cs) = Suc (sum_list (map child_size cs))"
| "child_size (Sub t) = tree_size t"
| "child_size (Tok k) = 0"

text \<open>The subtrees of a tree, itself included.\<close>

primrec subtrees :: "tree \<Rightarrow> tree list" and subtrees_child :: "child \<Rightarrow> tree list" where
  "subtrees (Tree d cs) = Tree d cs # concat (map subtrees_child cs)"
| "subtrees_child (Sub t) = subtrees t"
| "subtrees_child (Tok k) = []"

text \<open>
  Modelled from the library: \<open>Tree.iter_subtrees\<close>, the order in which \<open>Visitor.visit\<close>
  calls the visitor's methods. A queue starts with the tree; each subtree taken from
  the queue appends its child trees, last child first; the subtrees are returned in the
  reverse of the order in which they were taken.
\<close>

function bfs :: "tree list \<Rightarrow> tree list" where
  "bfs [] = []"
| "bfs (subtree # queue) = subtree # bfs (queue @ rev (child_trees (children subtree)))"
  by pat_completeness auto

text \<open>The trees in the queue, taken together, get smaller: a tree is replaced by its child trees.\<close>

termination
proof (relation "measure (\<lambda>queue. sum_list (map tree_size queue))")
  fix subtree :: tree and queue :: "tree list"
  have sz: "sum_list (map tree_size (child_trees cs)) = sum_list (map child_size cs)" for cs
    by (induction cs rule: child_trees.induct) simp_all
  obtain d cs where "subtree = Tree d cs"
    by (cases subtree)
  then show "(queue @ rev (child_trees (children subtree)), subtree # queue)
      \<in> measure (\<lambda>queue. sum_list (map tree_size queue))"
    by (simp add: rev_map [symmetric] sz)
qed simp

definition iter_subtrees :: "tree \<Rightarrow> tree list" where
  "iter_subtrees t = rev (bfs [t])"

text \<open>
  \<open>int(token)\<close> on the text of a \<open>NUMBER\<close> token, a string of decimal digits, and Python's
  formatting of a number in an f-string.
\<close>

definition is_digit :: "char \<Rightarrow> bool" where
  "is_digit ch \<longleftrightarrow> (48::nat) \<le> of_char ch \<and> of_char ch \<le> (57::nat)"

definition int_str :: "string \<Rightarrow> nat option" where
  "int_str s = (if s \<noteq> [] \<and> list_all is_digit s
     then Some (foldl (\<lambda>a ch. 10 * a + (of_char ch - 48)) 0 s) else None)"

fun str_nat :: "nat \<Rightarrow> string" where
  "str_nat n = (if n < 10 then [''0123456789'' ! n]
     else str_nat (n div 10) @ [''0123456789'' ! (n mod 10)])"

declare str_nat.simps [simp del]

text \<open>
  The class \<open>SemanticError\<close>: its constructor puts the line and the column of the token
  in front of the message and keeps the token. A visit ends with a \<open>SemanticError\<close>, or
  with one of Python's own exceptions when the tree is not one of the grammar's.
\<close>

datatype visit_exn = SemanticError (message: string) (token: token) | PyExc pyerr

definition SemanticError_init :: "string \<Rightarrow> token \<Rightarrow> visit_exn" where
  "SemanticError_init msg tok =
     SemanticError (''['' @ str_nat (line tok) @ '':'' @ str_nat (column tok) @ '']: '' @ msg) tok"

text \<open>\<open>int(c)\<close> for a child \<open>c\<close> of a tree: a tree is not a number.\<close>

fun int_child :: "child \<Rightarrow> pyerr + nat" where
  "int_child (Tok k) = (case int_str (tvalue k) of None \<Rightarrow> Inl ValueError | Some v \<Rightarrow> Inr v)"
| "int_child (Sub t) = Inl TypeError"

text \<open>\<open>CheckBlocks.block\<close>: the method the visitor calls on every subtree of the rule \<open>block\<close>.\<close>

definition CheckBlocks_block :: "tree \<Rightarrow> visit_exn + unit" where
  "CheckBlocks_block tree =
     (case children tree of
        [] \<Rightarrow> Inl (PyExc IndexError)
      | first # rest \<Rightarrow>
          (case int_child first of
             Inl e \<Rightarrow> Inl (PyExc e)
           | Inr start_num \<Rightarrow>
               (case int_child (last (first # rest)) of
                  Inl e \<Rightarrow> Inl (PyExc e)
                | Inr end_num \<Rightarrow>
                    if start_num \<noteq> end_num
                    then (case first of
                            Tok k \<Rightarrow> Inl (SemanticError_init
                              (''Block numbers do not match: '' @ str_nat start_num
                                 @ '' vs '' @ str_nat end_num) k)
                          | Sub t \<Rightarrow> Inl (PyExc TypeError))
                    else Inr ())))"

text \<open>
  \<open>Visitor.visit\<close> for the class \<open>CheckBlocks\<close>: the method named by \<open>data\<close> is called on
  each subtree, and \<open>CheckBlocks\<close> has the one method \<open>block\<close>; the first exception ends
  the visit.
\<close>

definition call_userfunc :: "tree \<Rightarrow> visit_exn + unit" where
  "call_userfunc subtree = (if data subtree = ''block'' then CheckBlocks_block subtree else Inr ())"

fun visit_subtrees :: "tree list \<Rightarrow> visit_exn + unit" where
  "visit_subtrees [] = Inr ()"
| "visit_subtrees (subtree # rest) =
     (case call_userfunc subtree of Inl e \<Rightarrow> Inl e | Inr u \<Rightarrow> visit_subtrees rest)"

definition visit :: "tree \<Rightarrow> visit_exn + tree" where
  "visit tree = (case visit_subtrees (iter_subtrees tree) of Inl e \<Rightarrow> Inl e | Inr u \<Rightarrow> Inr tree)"

text \<open>
  The main program, from the parse tree on: the validator's visit, then the
  transformer \<open>Sema\<close>, then \<open>run\<close>. The transformer is not modelled; \<open>main\<close> takes the
  function from parse trees to instruction tuples as its argument \<open>transform\<close>.
\<close>

definition main :: "(tree \<Rightarrow> toplevel list) \<Rightarrow> nat \<Rightarrow> tree
    \<Rightarrow> visit_exn + (val option res \<times> decls \<times> heap) option" where
  "main transform n tree =
     (case visit tree of
        Inl e \<Rightarrow> Inl e
      | Inr t \<Rightarrow> Inr (main_run n (transform tree)))"

text \<open>
  The open and the close label of a block's tree, and the trees on which the validator
  does not meet one of Python's own exceptions: every subtree of the rule \<open>block\<close>
  begins and ends with a token of decimal digits, as the grammar has it.
\<close>

definition block_labels :: "tree \<Rightarrow> (nat \<times> nat) option" where
  "block_labels t =
     (case children t of
        [] \<Rightarrow> None
      | first # rest \<Rightarrow>
          (case (int_child first, int_child (last (first # rest))) of
             (Inr a, Inr b) \<Rightarrow> Some (a, b)
           | _ \<Rightarrow> None))"

definition wf_blocks :: "tree \<Rightarrow> bool" where
  "wf_blocks tree \<longleftrightarrow>
     (\<forall>t \<in> set (subtrees tree). data t = ''block'' \<longrightarrow> block_labels t \<noteq> None)"

section \<open>What an evaluation leaves of the heap\<close>

text \<open>
  An expression leaves every dictionary of the heap as it was, whatever it calls; a
  statement changes no dictionary but the one it runs on, and takes no key out of that
  one. First the two relations, then where the heap of each kind of evaluation comes
  from, then the induction on the fuel.
\<close>

lemma preserved_refl: "preserved h h"
  by (simp add: preserved_def)

lemma preserved_trans: "preserved h h1 \<Longrightarrow> preserved h1 h2 \<Longrightarrow> preserved h h2"
  by (auto simp: preserved_def)

lemma preserved_frame: "c < length h \<Longrightarrow> preserved h h' \<Longrightarrow> frame c h h'"
  by (auto simp: preserved_def frame_def)

lemma frame_refl: "frame c h h"
  by (simp add: frame_def)

lemma frame_trans:
  assumes "c < length h" "frame c h h1" "frame c h1 h2"
  shows "frame c h h2"
proof -
  have "h2 ! a = h ! a" if "a < length h" "a \<noteq> c" for a
  proof -
    have "a < length h1"
      using that assms(2) by (simp add: frame_def)
    then show ?thesis
      using assms(2,3) that by (simp add: frame_def)
  qed
  moreover have "length h \<le> length h2"
    using assms by (simp add: frame_def)
  moreover have "dom (h ! c) \<subseteq> dom (h1 ! c)" "dom (h1 ! c) \<subseteq> dom (h2 ! c)"
    using assms(2,3) by (simp_all add: frame_def)
  then have "dom (h ! c) \<subseteq> dom (h2 ! c)"
    by (rule subset_trans)
  ultimately show ?thesis
    by (simp add: frame_def)
qed

lemma frame_update: "c < length h \<Longrightarrow> frame c h (h[c := (h ! c)(i \<mapsto> v)])"
  by (auto simp: frame_def)

lemma frame_fresh: "frame (length h1) (h1 @ [d]) h2 \<Longrightarrow> preserved h1 h2"
  by (auto simp: frame_def preserved_def nth_append)

lemma preserved_length: "preserved h h' \<Longrightarrow> c < length h \<Longrightarrow> c < length h'"
  by (auto simp: preserved_def)

lemma frame_length: "frame c h h' \<Longrightarrow> c < length h \<Longrightarrow> c < length h'"
  by (auto simp: frame_def)

lemma EOp_heap:
  assumes "runinstr_expr (Suc n) (EOp i x y) decls h c ps = Some (r, h')"
  shows "\<exists>r1 h1. runinstr_expr n x decls h c ps = Some (r1, h1)
           \<and> (h' = h1 \<or> (\<exists>r2. runinstr_expr n y decls h1 c ps = Some (r2, h')))"
  using assms by (auto split: option.splits res.splits prod.splits)

lemma ECall_heap:
  assumes "runinstr_expr (Suc n) (ECall p args) decls h c ps = Some (r, h')"
  shows "\<exists>ra h1. runinstr_args n args decls h c ps = Some (ra, h1)
           \<and> (h' = h1 \<or> (\<exists>fa fp blk rb. ra = Ret fa \<and> decls p = Some (fp, blk)
                 \<and> runinstr_block n blk decls (h1 @ [[-1 \<mapsto> default_output p]]) (length h1)
                      (dict_zip fp fa) = Some (rb, h')))"
  using assms by (auto split: option.splits res.splits prod.splits exn.splits)

lemma args_heap:
  assumes "runinstr_args (Suc n) (a # as) decls h c ps = Some (r, h')"
  shows "\<exists>r1 h1. runinstr_expr n a decls h c ps = Some (r1, h1)
           \<and> (h' = h1 \<or> (\<exists>r2. runinstr_args n as decls h1 c ps = Some (r2, h')))"
  using assms by (auto split: option.splits res.splits prod.splits)

lemma SCond_heap:
  assumes "runinstr_stmt (Suc n) (SCond t blk) decls h c ps = Some (r, h')"
  shows "\<exists>r1 h1. runinstr_expr n t decls h c ps = Some (r1, h1)
           \<and> (h' = h1 \<or> (\<exists>r2. runinstr_block n blk decls h1 c ps = Some (r2, h')))"
  using assms by (auto split: option.splits res.splits prod.splits if_splits)

lemma SAssign_heap:
  assumes "runinstr_stmt (Suc n) (SAssign lv e) decls h c ps = Some (r, h')"
  shows "\<exists>r1 h1. runinstr_expr n e decls h c ps = Some (r1, h1)
           \<and> (h' = h1 \<or> (\<exists>i v. h' = h1[c := (h1 ! c)(i \<mapsto> v)]))"
  using assms by (auto split: option.splits res.splits prod.splits)

lemma SLoop_None_heap:
  assumes "runinstr_stmt (Suc n) (SLoop None blk) decls h c ps = Some (r, h')"
  shows "\<exists>r1. mu_loop n blk decls h c ps = Some (r1, h')"
  using assms by (auto split: option.splits res.splits prod.splits)

lemma SLoop_Some_heap:
  assumes "runinstr_stmt (Suc n) (SLoop (Some b) blk) decls h c ps = Some (r, h')"
  shows "\<exists>r1 h1. runinstr_expr n b decls h c ps = Some (r1, h1)
           \<and> (h' = h1 \<or> (\<exists>k r2. for_range n k blk decls h1 c ps = Some (r2, h')))"
  using assms by (auto split: option.splits res.splits prod.splits)

lemma Block_heap:
  assumes "runinstr_block (Suc n) (Block l stmts) decls h c ps = Some (r, h')"
  shows "\<exists>r1. run n stmts decls h c ps = Some (r1, h')"
  using assms by (auto split: option.splits res.splits prod.splits exn.splits if_splits)

lemma run_heap:
  assumes "run (Suc n) (s # ss) decls h c ps = Some (r, h')"
  shows "\<exists>r1 h1. runinstr_stmt n s decls h c ps = Some (r1, h1)
           \<and> (h' = h1 \<or> (\<exists>r2. run n ss decls h1 c ps = Some (r2, h')))"
  using assms by (auto split: option.splits res.splits prod.splits)

lemma mu_loop_heap:
  assumes "mu_loop (Suc n) blk decls h c ps = Some (r, h')"
  shows "\<exists>r1 h1. runinstr_block n blk decls h c ps = Some (r1, h1)
           \<and> (h' = h1 \<or> (\<exists>r2. mu_loop n blk decls h1 c ps = Some (r2, h')))"
  using assms by (auto split: option.splits res.splits prod.splits exn.splits if_splits)

lemma for_range_heap:
  assumes "for_range (Suc n) (Suc k) blk decls h c ps = Some (r, h')"
  shows "\<exists>r1 h1. runinstr_block n blk decls h c ps = Some (r1, h1)
           \<and> (h' = h1 \<or> (\<exists>r2. for_range n k blk decls h1 c ps = Some (r2, h')))"
  using assms by (auto split: option.splits res.splits prod.splits exn.splits if_splits)



lemma keepsD:
  "keeps R f \<Longrightarrow> c < length h \<Longrightarrow> f x decls h c ps = Some (r, h') \<Longrightarrow> R c h h'"
  unfolding keeps_def by blast

lemma keepsI:
  "(\<And>x decls h c ps r h'. c < length h \<Longrightarrow> f x decls h c ps = Some (r, h') \<Longrightarrow> R c h h')
    \<Longrightarrow> keeps R f"
  unfolding keeps_def by blast

lemma frame_expr_Suc:
  assumes IHe: "keeps (\<lambda>c. preserved) (runinstr_expr n)"
    and IHa: "keeps (\<lambda>c. preserved) (runinstr_args n)"
    and IHb: "keeps frame (runinstr_block n)"
  shows "keeps (\<lambda>c. preserved) (runinstr_expr (Suc n))"
proof (rule keepsI)
  fix e decls h c ps r h'
  assume c: "c < length h" and ev: "runinstr_expr (Suc n) e decls h c ps = Some (r, h')"
  show "preserved h h'"
  proof (cases e)
    case (EOp i x y)
    from ev EOp_heap obtain r1 h1 where
      x: "runinstr_expr n x decls h c ps = Some (r1, h1)"
      and y: "h' = h1 \<or> (\<exists>r2. runinstr_expr n y decls h1 c ps = Some (r2, h'))"
      unfolding EOp by blast
    have p1: "preserved h h1"
      using keepsD [OF IHe c x] .
    then have c1: "c < length h1"
      using c by (rule preserved_length)
    from y have "preserved h1 h'"
    proof
      assume "h' = h1"
      then show ?thesis by (simp add: preserved_refl)
    next
      assume "\<exists>r2. runinstr_expr n y decls h1 c ps = Some (r2, h')"
      then obtain r2 where "runinstr_expr n y decls h1 c ps = Some (r2, h')" ..
      from keepsD [OF IHe c1 this] show ?thesis .
    qed
    with p1 show ?thesis
      by (rule preserved_trans)
  next
    case (ECall p args)
    from ev ECall_heap obtain ra h1 where
      a: "runinstr_args n args decls h c ps = Some (ra, h1)"
      and b: "h' = h1 \<or> (\<exists>fa fp blk rb. ra = Ret fa \<and> decls p = Some (fp, blk)
                   \<and> runinstr_block n blk decls (h1 @ [[-1 \<mapsto> default_output p]]) (length h1)
                        (dict_zip fp fa) = Some (rb, h'))"
      unfolding ECall by blast
    have p1: "preserved h h1"
      using keepsD [OF IHa c a] .
    from b have "preserved h1 h'"
    proof
      assume "h' = h1"
      then show ?thesis by (simp add: preserved_refl)
    next
      assume "\<exists>fa fp blk rb. ra = Ret fa \<and> decls p = Some (fp, blk)
                   \<and> runinstr_block n blk decls (h1 @ [[-1 \<mapsto> default_output p]]) (length h1)
                        (dict_zip fp fa) = Some (rb, h')"
      then obtain fa fp blk rb where run:
        "runinstr_block n blk decls (h1 @ [[-1 \<mapsto> default_output p]]) (length h1)
            (dict_zip fp fa) = Some (rb, h')"
        by blast
      have "length h1 < length (h1 @ [[-1 \<mapsto> default_output p]])"
        by simp
      from keepsD [OF IHb this run] show ?thesis
        by (rule frame_fresh)
    qed
    with p1 show ?thesis
      by (rule preserved_trans)
  next
    case (EBool b)
    with ev show ?thesis by (simp add: preserved_refl)
  next
    case (ENum k)
    with ev show ?thesis by (simp add: preserved_refl)
  next
    case (ECellfetch i)
    with ev show ?thesis by (auto simp: preserved_refl split: option.splits)
  next
    case (EParamfetch p)
    with ev show ?thesis by (auto simp: preserved_refl split: option.splits)
  qed
qed


lemma frame_args_Suc:
  assumes IHe: "keeps (\<lambda>c. preserved) (runinstr_expr n)"
    and IHa: "keeps (\<lambda>c. preserved) (runinstr_args n)"
  shows "keeps (\<lambda>c. preserved) (runinstr_args (Suc n))"
proof (rule keepsI)
  fix es decls h c ps r h'
  assume c: "c < length h" and ev: "runinstr_args (Suc n) es decls h c ps = Some (r, h')"
  show "preserved h h'"
  proof (cases es)
    case Nil
    with ev show ?thesis by (simp add: preserved_refl)
  next
    case (Cons a as)
    from ev args_heap obtain r1 h1 where
      x: "runinstr_expr n a decls h c ps = Some (r1, h1)"
      and y: "h' = h1 \<or> (\<exists>r2. runinstr_args n as decls h1 c ps = Some (r2, h'))"
      unfolding Cons by blast
    have p1: "preserved h h1"
      using keepsD [OF IHe c x] .
    then have c1: "c < length h1"
      using c by (rule preserved_length)
    from y have "preserved h1 h'"
    proof
      assume "h' = h1"
      then show ?thesis by (simp add: preserved_refl)
    next
      assume "\<exists>r2. runinstr_args n as decls h1 c ps = Some (r2, h')"
      then obtain r2 where "runinstr_args n as decls h1 c ps = Some (r2, h')" ..
      from keepsD [OF IHa c1 this] show ?thesis .
    qed
    with p1 show ?thesis
      by (rule preserved_trans)
  qed
qed

lemma frame_stmt_Suc:
  assumes IHe: "keeps (\<lambda>c. preserved) (runinstr_expr n)"
    and IHb: "keeps frame (runinstr_block n)"
    and IHm: "keeps frame (mu_loop n)"
    and IHf: "keeps frame (\<lambda>(k, b). for_range n k b)"
  shows "keeps frame (runinstr_stmt (Suc n))"
proof (rule keepsI)
  fix s decls h c ps r h'
  assume c: "c < length h" and ev: "runinstr_stmt (Suc n) s decls h c ps = Some (r, h')"
  show "frame c h h'"
  proof (cases s)
    case (SLoop bound blk)
    show ?thesis
    proof (cases bound)
      case None
      from ev SLoop_None_heap obtain r1 where "mu_loop n blk decls h c ps = Some (r1, h')"
        unfolding SLoop None by blast
      from keepsD [OF IHm c this] show ?thesis .
    next
      case (Some b)
      from ev SLoop_Some_heap obtain r1 h1 where
        x: "runinstr_expr n b decls h c ps = Some (r1, h1)"
        and y: "h' = h1 \<or> (\<exists>k r2. for_range n k blk decls h1 c ps = Some (r2, h'))"
        unfolding SLoop Some by blast
      have p1: "preserved h h1"
        using keepsD [OF IHe c x] .
      then have c1: "c < length h1"
        using c by (rule preserved_length)
      from y have "frame c h1 h'"
      proof
        assume "h' = h1"
        then show ?thesis by (simp add: frame_refl)
      next
        assume "\<exists>k r2. for_range n k blk decls h1 c ps = Some (r2, h')"
        then obtain k r2 where "(\<lambda>(k, b). for_range n k b) (k, blk) decls h1 c ps = Some (r2, h')"
          by auto
        from keepsD [OF IHf c1 this] show ?thesis .
      qed
      with c preserved_frame [OF c p1] show ?thesis
        by (rule frame_trans)
    qed
  next
    case (SCond t blk)
    from ev SCond_heap obtain r1 h1 where
      x: "runinstr_expr n t decls h c ps = Some (r1, h1)"
      and y: "h' = h1 \<or> (\<exists>r2. runinstr_block n blk decls h1 c ps = Some (r2, h'))"
      unfolding SCond by blast
    have p1: "preserved h h1"
      using keepsD [OF IHe c x] .
    then have c1: "c < length h1"
      using c by (rule preserved_length)
    from y have "frame c h1 h'"
    proof
      assume "h' = h1"
      then show ?thesis by (simp add: frame_refl)
    next
      assume "\<exists>r2. runinstr_block n blk decls h1 c ps = Some (r2, h')"
      then obtain r2 where "runinstr_block n blk decls h1 c ps = Some (r2, h')" ..
      from keepsD [OF IHb c1 this] show ?thesis .
    qed
    with c preserved_frame [OF c p1] show ?thesis
      by (rule frame_trans)
  next
    case (SQuit l)
    with ev show ?thesis by (simp add: frame_refl)
  next
    case (SAbort l)
    with ev show ?thesis by (simp add: frame_refl)
  next
    case (SAssign lv e)
    from ev SAssign_heap obtain r1 h1 where
      x: "runinstr_expr n e decls h c ps = Some (r1, h1)"
      and y: "h' = h1 \<or> (\<exists>i v. h' = h1[c := (h1 ! c)(i \<mapsto> v)])"
      unfolding SAssign by blast
    have p1: "preserved h h1"
      using keepsD [OF IHe c x] .
    then have c1: "c < length h1"
      using c by (rule preserved_length)
    from y have "frame c h1 h'"
    proof
      assume "h' = h1"
      then show ?thesis by (simp add: frame_refl)
    next
      assume "\<exists>i v. h' = h1[c := (h1 ! c)(i \<mapsto> v)]"
      then obtain i v where "h' = h1[c := (h1 ! c)(i \<mapsto> v)]" by blast
      with frame_update [OF c1] show ?thesis by simp
    qed
    with c preserved_frame [OF c p1] show ?thesis
      by (rule frame_trans)
  qed
qed

lemma frame_block_Suc:
  assumes IHr: "keeps frame (run n)"
  shows "keeps frame (runinstr_block (Suc n))"
proof (rule keepsI)
  fix b decls h c ps r h'
  assume c: "c < length h" and ev: "runinstr_block (Suc n) b decls h c ps = Some (r, h')"
  obtain l stmts where b: "b = Block l stmts"
    by (cases b) blast
  from ev Block_heap obtain r1 where "run n stmts decls h c ps = Some (r1, h')"
    unfolding b by blast
  from keepsD [OF IHr c this] show "frame c h h'" .
qed

lemma frame_run_Suc:
  assumes IHs: "keeps frame (runinstr_stmt n)"
    and IHr: "keeps frame (run n)"
  shows "keeps frame (run (Suc n))"
proof (rule keepsI)
  fix ss decls h c ps r h'
  assume c: "c < length h" and ev: "run (Suc n) ss decls h c ps = Some (r, h')"
  show "frame c h h'"
  proof (cases ss)
    case Nil
    with ev show ?thesis by (simp add: frame_refl)
  next
    case (Cons s rest)
    from ev run_heap obtain r1 h1 where
      x: "runinstr_stmt n s decls h c ps = Some (r1, h1)"
      and y: "h' = h1 \<or> (\<exists>r2. run n rest decls h1 c ps = Some (r2, h'))"
      unfolding Cons by blast
    have p1: "frame c h h1"
      using keepsD [OF IHs c x] .
    then have c1: "c < length h1"
      using c by (rule frame_length)
    from y have "frame c h1 h'"
    proof
      assume "h' = h1"
      then show ?thesis by (simp add: frame_refl)
    next
      assume "\<exists>r2. run n rest decls h1 c ps = Some (r2, h')"
      then obtain r2 where "run n rest decls h1 c ps = Some (r2, h')" ..
      from keepsD [OF IHr c1 this] show ?thesis .
    qed
    with c p1 show ?thesis
      by (rule frame_trans)
  qed
qed

lemma frame_mu_loop_Suc:
  assumes IHb: "keeps frame (runinstr_block n)"
    and IHm: "keeps frame (mu_loop n)"
  shows "keeps frame (mu_loop (Suc n))"
proof (rule keepsI)
  fix b decls h c ps r h'
  assume c: "c < length h" and ev: "mu_loop (Suc n) b decls h c ps = Some (r, h')"
  from ev mu_loop_heap obtain r1 h1 where
    x: "runinstr_block n b decls h c ps = Some (r1, h1)"
    and y: "h' = h1 \<or> (\<exists>r2. mu_loop n b decls h1 c ps = Some (r2, h'))"
    by blast
  have p1: "frame c h h1"
    using keepsD [OF IHb c x] .
  then have c1: "c < length h1"
    using c by (rule frame_length)
  from y have "frame c h1 h'"
  proof
    assume "h' = h1"
    then show ?thesis by (simp add: frame_refl)
  next
    assume "\<exists>r2. mu_loop n b decls h1 c ps = Some (r2, h')"
    then obtain r2 where "mu_loop n b decls h1 c ps = Some (r2, h')" ..
    from keepsD [OF IHm c1 this] show ?thesis .
  qed
  with c p1 show "frame c h h'"
    by (rule frame_trans)
qed

lemma frame_for_range_Suc:
  assumes IHb: "keeps frame (runinstr_block n)"
    and IHf: "keeps frame (\<lambda>(k, b). for_range n k b)"
  shows "keeps frame (\<lambda>(k, b). for_range (Suc n) k b)"
proof (rule keepsI)
  fix kb decls h c ps r h'
  assume c: "c < length h"
    and ev0: "(\<lambda>(k, b). for_range (Suc n) k b) kb decls h c ps = Some (r, h')"
  obtain k b where kb: "kb = (k, b)"
    by (cases kb) blast
  from ev0 have ev: "for_range (Suc n) k b decls h c ps = Some (r, h')"
    by (simp add: kb)
  show "frame c h h'"
  proof (cases k)
    case 0
    with ev show ?thesis by (simp add: frame_refl)
  next
    case (Suc j)
    from ev for_range_heap obtain r1 h1 where
      x: "runinstr_block n b decls h c ps = Some (r1, h1)"
      and y: "h' = h1 \<or> (\<exists>r2. for_range n j b decls h1 c ps = Some (r2, h'))"
      unfolding Suc by blast
    have p1: "frame c h h1"
      using keepsD [OF IHb c x] .
    then have c1: "c < length h1"
      using c by (rule frame_length)
    from y have "frame c h1 h'"
    proof
      assume "h' = h1"
      then show ?thesis by (simp add: frame_refl)
    next
      assume "\<exists>r2. for_range n j b decls h1 c ps = Some (r2, h')"
      then obtain r2 where "(\<lambda>(k, b). for_range n k b) (j, b) decls h1 c ps = Some (r2, h')"
        by auto
      from keepsD [OF IHf c1 this] show ?thesis .
    qed
    with c p1 show ?thesis
      by (rule frame_trans)
  qed
qed

lemma frame_all:
  "keeps (\<lambda>c. preserved) (runinstr_expr n) \<and> keeps (\<lambda>c. preserved) (runinstr_args n)
   \<and> keeps frame (runinstr_stmt n) \<and> keeps frame (runinstr_block n) \<and> keeps frame (run n)
   \<and> keeps frame (mu_loop n) \<and> keeps frame (\<lambda>(k, b). for_range n k b)"
proof (induction n)
  case 0
  have a: "keeps (\<lambda>c. preserved) (runinstr_args 0)"
  proof (rule keepsI)
    fix es decls h c ps r h'
    assume "runinstr_args 0 es decls h c ps = Some (r, h')"
    then show "preserved h h'"
      by (cases es) (simp_all add: preserved_refl)
  qed
  have b: "keeps frame (run 0)"
  proof (rule keepsI)
    fix ss decls h c ps r h'
    assume "run 0 ss decls h c ps = Some (r, h')"
    then show "frame c h h'"
      by (cases ss) (simp_all add: frame_refl)
  qed
  have c: "keeps frame (\<lambda>(k, b). for_range 0 k b)"
  proof (rule keepsI)
    fix kb :: "nat \<times> block" and decls h c ps r h'
    assume "(\<lambda>(k, b). for_range 0 k b) kb decls h c ps = Some (r, h')"
    then show "frame c h h'"
      by (cases kb; cases "fst kb") (simp_all add: frame_refl)
  qed
  have "keeps (\<lambda>c. preserved) (runinstr_expr 0)" "keeps frame (runinstr_stmt 0)"
    "keeps frame (runinstr_block 0)" "keeps frame (mu_loop 0)"
    by (simp_all add: keeps_def)
  with a b c show ?case
    by blast
next
  case (Suc n)
  then show ?case
    by (blast intro: frame_expr_Suc frame_args_Suc frame_stmt_Suc frame_block_Suc frame_run_Suc
        frame_mu_loop_Suc frame_for_range_Suc)
qed

lemma expr_preserved:
  "c < length h \<Longrightarrow> runinstr_expr n e decls h c ps = Some (r, h') \<Longrightarrow> preserved h h'"
  using frame_all [of n] by (blast dest: keepsD)

lemma args_preserved:
  "c < length h \<Longrightarrow> runinstr_args n es decls h c ps = Some (r, h') \<Longrightarrow> preserved h h'"
  using frame_all [of n] by (blast dest: keepsD)

lemma stmt_frame:
  "c < length h \<Longrightarrow> runinstr_stmt n s decls h c ps = Some (r, h') \<Longrightarrow> frame c h h'"
  using frame_all [of n] by (blast dest: keepsD)

lemma block_frame:
  "c < length h \<Longrightarrow> runinstr_block n b decls h c ps = Some (r, h') \<Longrightarrow> frame c h h'"
  using frame_all [of n] by (blast dest: keepsD)

lemma run_frame:
  "c < length h \<Longrightarrow> run n ss decls h c ps = Some (r, h') \<Longrightarrow> frame c h h'"
  using frame_all [of n] by (blast dest: keepsD)

lemma mu_loop_frame:
  "c < length h \<Longrightarrow> mu_loop n b decls h c ps = Some (r, h') \<Longrightarrow> frame c h h'"
  using frame_all [of n] by (blast dest: keepsD)

lemma for_range_frame:
  assumes "c < length h" "for_range n k b decls h c ps = Some (r, h')"
  shows "frame c h h'"
proof -
  have a: "keeps frame (\<lambda>(k, b). for_range n k b)"
    using frame_all [of n] by blast
  have b: "(\<lambda>(k, b). for_range n k b) (k, b) decls h c ps = Some (r, h')"
    using assms(2) by simp
  from keepsD [OF a assms(1) b] show ?thesis .
qed

section \<open>Calls: arguments and parameters\<close>

text \<open>
  As many values as argument expressions; what a call that returns went through; which
  parameters \<open>dict(zip(funcparams, funcargs))\<close> binds.
\<close>

lemma args_length:
  "runinstr_args n args decls h c ps = Some (Ret vs, h') \<Longrightarrow> length vs = length args"
proof (induction args arbitrary: n h vs)
  case Nil
  then show ?case by simp
next
  case (Cons a as)
  then show ?case
    by (cases n) (auto split: option.splits prod.splits res.splits)
qed

lemma ECall_Ret:
  assumes "runinstr_expr (Suc n) (ECall procname args) decls h c ps = Some (Ret v, h')"
  shows "\<exists>funcargs h1 funcparams block.
           runinstr_args n args decls h c ps = Some (Ret funcargs, h1)
         \<and> decls procname = Some (funcparams, block)
         \<and> runinstr_block n block decls (h1 @ [[-1 \<mapsto> default_output procname]]) (length h1)
              (dict_zip funcparams funcargs) = Some (Ret (), h')
         \<and> (h' ! length h1) (-1) = Some v"
  using assms by (auto split: option.splits prod.splits res.splits exn.splits)

lemma dom_dict_zip: "dom (dict_zip funcparams funcargs) = set (take (length funcargs) funcparams)"
proof -
  have "dom (dict_zip funcparams funcargs) = fst ` set (zip funcparams funcargs)"
    by (simp add: dict_zip_def dom_map_of_conv_image_fst)
  also have "\<dots> = set (map fst (zip funcparams funcargs))"
    by simp
  also have "map fst (zip funcparams funcargs) = take (length funcargs) funcparams"
    by (auto simp: map_fst_zip_take min_def)
  finally show ?thesis .
qed


lemma dict_zip_nth:
  assumes "distinct funcparams" "i < length funcparams" "i < length funcargs"
  shows "dict_zip funcparams funcargs (funcparams ! i) = Some (funcargs ! i)"
proof -
  have d: "distinct (map fst (rev (zip funcparams funcargs)))"
    using assms(1) by (simp add: rev_map [symmetric] map_fst_zip_take distinct_take)
  have "(funcparams ! i, funcargs ! i) \<in> set (rev (zip funcparams funcargs))"
    using assms(2,3) by (auto simp: set_zip)
  with d show ?thesis
    unfolding dict_zip_def by (rule map_of_is_SomeI)
qed

section \<open>The unbounded loop\<close>

text \<open>
  After its \<open>while True\<close> loop the branch for \<open>"loop"\<close> goes on to
  \<open>bound = runinstr(args[0], ...)\<close> with \<open>args[0]\<close> being \<open>None\<close>: a statement
  \<open>("loop", None, block)\<close> returns normally on no input.
\<close>

lemma mu_loop_stmt_never_returns:
  "runinstr_stmt n (SLoop None block) decls h c ps \<noteq> Some (Ret u, h')"
  by (cases n) (auto split: option.splits prod.splits res.splits)

section \<open>The bounded loop\<close>

text \<open>
  Whatever \<open>for_range\<close> returns, it has made some number \<open>j\<close> of normal passes, and
  either those were all the passes asked for, or one more pass raised an exception,
  which ended the loop: normally when it was \<open>Abort\<close> with the label of the body.
\<close>

lemma for_range_passes:
  assumes "for_range n N block decls h c ps = Some (r, h')"
  shows "\<exists>j hj. j \<le> N \<and> passes n j block decls h c ps = Some hj
           \<and> ((j = N \<and> r = Ret () \<and> h' = hj)
              \<or> (j < N \<and> (\<exists>e. runinstr_block (n - Suc j) block decls hj c ps = Some (Raise e, h')
                    \<and> r = (if e = Abort (blocknum_of block) then Ret () else Raise e))))"
  using assms
proof (induction N arbitrary: n h)
  case 0
  then show ?case by simp
next
  case (Suc k)
  then obtain m where n: "n = Suc m"
    by (cases n) auto
  from Suc.prems obtain r1 h1 where body: "runinstr_block m block decls h c ps = Some (r1, h1)"
    unfolding n by (auto split: option.splits)
  show ?case
  proof (cases r1)
    case (Ret u)
    with Suc.prems body have "for_range m k block decls h1 c ps = Some (r, h')"
      unfolding n by simp
    from Suc.IH [OF this] obtain j hj where j: "j \<le> k"
      and p: "passes m j block decls h1 c ps = Some hj"
      and d: "(j = k \<and> r = Ret () \<and> h' = hj)
              \<or> (j < k \<and> (\<exists>e. runinstr_block (m - Suc j) block decls hj c ps = Some (Raise e, h')
                    \<and> r = (if e = Abort (blocknum_of block) then Ret () else Raise e)))"
      by blast
    have "passes n (Suc j) block decls h c ps = Some hj"
      unfolding n using body Ret p by simp
    moreover have "Suc j \<le> Suc k"
      using j by simp
    moreover have "(Suc j = Suc k \<and> r = Ret () \<and> h' = hj)
              \<or> (Suc j < Suc k \<and> (\<exists>e. runinstr_block (n - Suc (Suc j)) block decls hj c ps
                      = Some (Raise e, h')
                    \<and> r = (if e = Abort (blocknum_of block) then Ret () else Raise e)))"
      using d unfolding n by simp
    ultimately show ?thesis
      by (intro exI [of _ "Suc j"] exI [of _ hj]) simp
  next
    case (Raise e)
    with Suc.prems body have "h' = h1 \<and> r = (if e = Abort (blocknum_of block) then Ret () else Raise e)"
      unfolding n by (cases e) (auto split: if_splits)
    with body Raise have "\<exists>e. runinstr_block (n - Suc 0) block decls h c ps = Some (Raise e, h')
        \<and> r = (if e = Abort (blocknum_of block) then Ret () else Raise e)"
      unfolding n by simp
    then have "(0::nat) \<le> Suc k \<and> passes n 0 block decls h c ps = Some h
        \<and> ((0 = Suc k \<and> r = Ret () \<and> h' = h)
           \<or> (0 < Suc k \<and> (\<exists>e. runinstr_block (n - Suc 0) block decls h c ps = Some (Raise e, h')
                 \<and> r = (if e = Abort (blocknum_of block) then Ret () else Raise e))))"
      by simp
    then show ?thesis
      by (intro exI [of _ "0::nat"] exI [of _ h])
  qed
qed

section \<open>The visit of the block validator\<close>

text \<open>
  The queue of \<open>iter_subtrees\<close> reaches every subtree; a visit succeeds when every call
  of a method does, and fails with the exception of one of them; on a subtree of the
  rule \<open>block\<close> whose labels are numbers the method compares the two numbers.
\<close>

lemma subtrees_children:
  "(\<Union>ch\<in>set cs. set (subtrees_child ch)) = (\<Union>t\<in>set (child_trees cs). set (subtrees t))"
  by (induction cs rule: child_trees.induct) simp_all

lemma set_subtrees:
  "set (subtrees t) = insert t (\<Union>u\<in>set (child_trees (children t)). set (subtrees u))"
  by (cases t) (simp add: subtrees_children)

lemma set_bfs: "set (bfs queue) = (\<Union>t\<in>set queue. set (subtrees t))"
proof (induction queue rule: bfs.induct)
  case 1
  then show ?case by simp
next
  case (2 subtree queue)
  have "set (bfs (subtree # queue))
      = insert subtree (set (bfs (queue @ rev (child_trees (children subtree)))))"
    by simp
  also have "\<dots> = insert subtree ((\<Union>t\<in>set queue. set (subtrees t))
      \<union> (\<Union>u\<in>set (child_trees (children subtree)). set (subtrees u)))"
    by (simp add: "2.IH")
  also have "\<dots> = set (subtrees subtree) \<union> (\<Union>t\<in>set queue. set (subtrees t))"
    using set_subtrees [of subtree] by auto
  finally show ?case
    by simp
qed

lemma set_iter_subtrees: "set (iter_subtrees tree) = set (subtrees tree)"
  unfolding iter_subtrees_def set_rev set_bfs by simp

lemma visit_subtrees_ok:
  "visit_subtrees ts = Inr () \<longleftrightarrow> (\<forall>t\<in>set ts. call_userfunc t = Inr ())"
  by (induction ts) (auto split: sum.splits)

lemma visit_subtrees_error:
  "visit_subtrees ts = Inl e \<Longrightarrow> \<exists>t\<in>set ts. call_userfunc t = Inl e"
  by (induction ts) (auto split: sum.splits)

lemma block_labels_first:
  assumes "block_labels t = Some (a, b)"
  shows "\<exists>k rest. children t = Tok k # rest \<and> int_str (tvalue k) = Some a"
proof -
  from assms obtain first rest where cs: "children t = first # rest"
    and f: "int_child first = Inr a"
    by (auto simp: block_labels_def split: list.splits sum.splits)
  from f obtain k where "first = Tok k" "int_str (tvalue k) = Some a"
    by (cases first) (auto split: option.splits)
  with cs show ?thesis
    by blast
qed

lemma call_userfunc_block:
  assumes "data t = ''block''" "block_labels t = Some (a, b)" "children t = Tok k # rest"
  shows "call_userfunc t =
     (if a = b then Inr ()
      else Inl (SemanticError (''['' @ str_nat (line k) @ '':'' @ str_nat (column k) @ '']: ''
                  @ ''Block numbers do not match: '' @ str_nat a @ '' vs '' @ str_nat b) k))"
  using assms
  by (auto simp: call_userfunc_def CheckBlocks_block_def block_labels_def SemanticError_init_def
      split: sum.splits option.splits)


lemma call_userfunc_ok_iff:
  assumes "data t = ''block'' \<longrightarrow> block_labels t \<noteq> None"
  shows "call_userfunc t = Inr () \<longleftrightarrow> (data t = ''block'' \<longrightarrow> (\<exists>a. block_labels t = Some (a, a)))"
proof (cases "data t = ''block''")
  case False
  then show ?thesis by (simp add: call_userfunc_def)
next
  case True
  with assms obtain a b where l: "block_labels t = Some (a, b)"
    by auto
  from block_labels_first [OF l] obtain k rest where "children t = Tok k # rest"
    by blast
  from call_userfunc_block [OF True l this] True l show ?thesis
    by (simp split: if_splits)
qed

lemma call_userfunc_error:
  assumes "data t = ''block'' \<longrightarrow> block_labels t \<noteq> None" and "call_userfunc t = Inl e"
  shows "\<exists>a b k rest. data t = ''block'' \<and> children t = Tok k # rest
           \<and> block_labels t = Some (a, b) \<and> a \<noteq> b
           \<and> e = SemanticError (''['' @ str_nat (line k) @ '':'' @ str_nat (column k) @ '']: ''
                  @ ''Block numbers do not match: '' @ str_nat a @ '' vs '' @ str_nat b) k"
proof -
  from assms(2) have d: "data t = ''block''"
    by (auto simp: call_userfunc_def split: if_splits)
  with assms(1) obtain a b where l: "block_labels t = Some (a, b)"
    by auto
  from block_labels_first [OF l] obtain k rest where cs: "children t = Tok k # rest"
    by blast
  from call_userfunc_block [OF d l cs] assms(2)
  have "a \<noteq> b \<and> e = SemanticError (''['' @ str_nat (line k) @ '':'' @ str_nat (column k) @ '']: ''
                  @ ''Block numbers do not match: '' @ str_nat a @ '' vs '' @ str_nat b) k"
    by (simp split: if_splits)
  with d l cs show ?thesis
    by blast
qed

lemma visit_cases: "visit tree = Inr tree \<or> (\<exists>e. visit tree = Inl e)"
  by (simp add: visit_def split: sum.splits)

lemma visit_ok_iff: "visit tree = Inr tree \<longleftrightarrow> visit_subtrees (iter_subtrees tree) = Inr ()"
  by (simp add: visit_def split: sum.splits)

lemma visit_error_iff: "visit tree = Inl e \<longleftrightarrow> visit_subtrees (iter_subtrees tree) = Inl e"
  by (simp add: visit_def split: sum.splits)

section \<open>Reading the output cell\<close>

text \<open>
  Where an exception that leaves an evaluation came from; then, by induction on the
  fuel: on a cell dictionary that holds cell -1 no evaluation ends with the
  \<open>KeyError\<close> of cell -1. A call evaluates its arguments on the caller's dictionary
  and its body on a new one that holds cell -1, and no key ever leaves a dictionary.
\<close>

lemma reads_outputD:
  "reads_output f \<Longrightarrow> c < length h \<Longrightarrow> -1 \<in> dom (h ! c)
    \<Longrightarrow> f x decls h c ps = Some (Raise (PyErr (KeyError (IntKey (-1)))), h') \<Longrightarrow> False"
  unfolding reads_output_def by blast

lemma reads_outputI:
  "(\<And>x decls h c ps h'. c < length h \<Longrightarrow> -1 \<in> dom (h ! c)
      \<Longrightarrow> f x decls h c ps = Some (Raise (PyErr (KeyError (IntKey (-1)))), h') \<Longrightarrow> False)
    \<Longrightarrow> reads_output f"
  unfolding reads_output_def by blast

lemma EOp_raise:
  assumes "runinstr_expr (Suc n) (EOp i x y) decls h c ps = Some (Raise e, h')"
  shows "runinstr_expr n x decls h c ps = Some (Raise e, h')
       \<or> (\<exists>a h1. runinstr_expr n x decls h c ps = Some (Ret a, h1)
             \<and> runinstr_expr n y decls h1 c ps = Some (Raise e, h'))"
  using assms by (auto split: option.splits res.splits prod.splits)

lemma args_raise:
  assumes "runinstr_args (Suc n) (a # as) decls h c ps = Some (Raise e, h')"
  shows "runinstr_expr n a decls h c ps = Some (Raise e, h')
       \<or> (\<exists>v h1. runinstr_expr n a decls h c ps = Some (Ret v, h1)
             \<and> runinstr_args n as decls h1 c ps = Some (Raise e, h'))"
  using assms by (auto split: option.splits res.splits prod.splits)

lemma SCond_raise:
  assumes "runinstr_stmt (Suc n) (SCond t blk) decls h c ps = Some (Raise e, h')"
  shows "runinstr_expr n t decls h c ps = Some (Raise e, h')
       \<or> (\<exists>v h1. runinstr_expr n t decls h c ps = Some (Ret v, h1)
             \<and> runinstr_block n blk decls h1 c ps = Some (Raise e, h'))"
  using assms by (auto split: option.splits res.splits prod.splits if_splits)

lemma SAssign_raise:
  assumes "runinstr_stmt (Suc n) (SAssign lv x) decls h c ps = Some (Raise e, h')"
  shows "runinstr_expr n x decls h c ps = Some (Raise e, h')"
  using assms by (auto split: option.splits res.splits prod.splits)

lemma SLoop_None_raise:
  assumes "runinstr_stmt (Suc n) (SLoop None blk) decls h c ps = Some (Raise (PyErr e), h')"
  shows "mu_loop n blk decls h c ps = Some (Raise (PyErr e), h') \<or> e = TypeError"
  using assms by (auto split: option.splits res.splits prod.splits)

lemma SLoop_Some_raise:
  assumes "runinstr_stmt (Suc n) (SLoop (Some b) blk) decls h c ps = Some (Raise e, h')"
  shows "runinstr_expr n b decls h c ps = Some (Raise e, h')
       \<or> (\<exists>v h1. runinstr_expr n b decls h c ps = Some (Ret v, h1)
             \<and> for_range n (nat (as_int v)) blk decls h1 c ps = Some (Raise e, h'))"
  using assms by (auto split: option.splits res.splits prod.splits)

lemma Block_raise:
  assumes "runinstr_block (Suc n) (Block l stmts) decls h c ps = Some (Raise (PyErr e), h')"
  shows "run n stmts decls h c ps = Some (Raise (PyErr e), h')"
  using assms by (auto split: option.splits res.splits prod.splits exn.splits if_splits)

lemma run_raise:
  assumes "run (Suc n) (s # ss) decls h c ps = Some (Raise e, h')"
  shows "runinstr_stmt n s decls h c ps = Some (Raise e, h')
       \<or> (\<exists>h1. runinstr_stmt n s decls h c ps = Some (Ret (), h1)
             \<and> run n ss decls h1 c ps = Some (Raise e, h'))"
  using assms by (auto split: option.splits res.splits prod.splits)

lemma mu_loop_raise:
  assumes "mu_loop (Suc n) blk decls h c ps = Some (Raise (PyErr e), h')"
  shows "runinstr_block n blk decls h c ps = Some (Raise (PyErr e), h')
       \<or> (\<exists>h1. runinstr_block n blk decls h c ps = Some (Ret (), h1)
             \<and> mu_loop n blk decls h1 c ps = Some (Raise (PyErr e), h'))"
  using assms by (auto split: option.splits res.splits prod.splits exn.splits if_splits)

lemma for_range_raise:
  assumes "for_range (Suc n) (Suc k) blk decls h c ps = Some (Raise (PyErr e), h')"
  shows "runinstr_block n blk decls h c ps = Some (Raise (PyErr e), h')
       \<or> (\<exists>h1. runinstr_block n blk decls h c ps = Some (Ret (), h1)
             \<and> for_range n k blk decls h1 c ps = Some (Raise (PyErr e), h'))"
  using assms by (auto split: option.splits res.splits prod.splits exn.splits if_splits)

lemma preserved_dom: "preserved h h1 \<Longrightarrow> c < length h \<Longrightarrow> x \<in> dom (h ! c) \<Longrightarrow> x \<in> dom (h1 ! c)"
  by (simp add: preserved_def)

lemma frame_dom: "frame c h h1 \<Longrightarrow> x \<in> dom (h ! c) \<Longrightarrow> x \<in> dom (h1 ! c)"
  by (auto simp: frame_def)



lemma ECall_raise_output:
  assumes "runinstr_expr (Suc n) (ECall p args) decls h c ps
      = Some (Raise (PyErr (KeyError (IntKey (-1)))), h')"
  shows "runinstr_args n args decls h c ps = Some (Raise (PyErr (KeyError (IntKey (-1)))), h')
       \<or> (\<exists>fa h1 fp blk.
             runinstr_block n blk decls (h1 @ [[-1 \<mapsto> default_output p]]) (length h1)
                (dict_zip fp fa) = Some (Raise (PyErr (KeyError (IntKey (-1)))), h')
           \<or> (runinstr_block n blk decls (h1 @ [[-1 \<mapsto> default_output p]]) (length h1)
                (dict_zip fp fa) = Some (Ret (), h') \<and> (h' ! length h1) (-1) = None))"
  using assms by (auto split: option.splits res.splits prod.splits exn.splits)

lemma ro_expr_Suc:
  assumes IHe: "reads_output (runinstr_expr n)"
    and IHa: "reads_output (runinstr_args n)"
    and IHb: "reads_output (runinstr_block n)"
  shows "reads_output (runinstr_expr (Suc n))"
proof (rule reads_outputI)
  fix e decls h c ps h'
  assume c: "c < length h" and o: "-1 \<in> dom (h ! c)"
    and ev: "runinstr_expr (Suc n) e decls h c ps = Some (Raise (PyErr (KeyError (IntKey (-1)))), h')"
  show False
  proof (cases e)
    case (EBool b)
    with ev show ?thesis by simp
  next
    case (ENum k)
    with ev show ?thesis by simp
  next
    case (ECellfetch i)
    with ev o show ?thesis by (auto split: option.splits)
  next
    case (EParamfetch p)
    with ev show ?thesis by (auto split: option.splits)
  next
    case (EOp i x y)
    from EOp_raise [OF ev [unfolded EOp]] show ?thesis
    proof
      assume "runinstr_expr n x decls h c ps = Some (Raise (PyErr (KeyError (IntKey (-1)))), h')"
      from reads_outputD [OF IHe c o this] show ?thesis .
    next
      assume "\<exists>a h1. runinstr_expr n x decls h c ps = Some (Ret a, h1)
             \<and> runinstr_expr n y decls h1 c ps = Some (Raise (PyErr (KeyError (IntKey (-1)))), h')"
      then obtain a h1 where x: "runinstr_expr n x decls h c ps = Some (Ret a, h1)"
        and y: "runinstr_expr n y decls h1 c ps = Some (Raise (PyErr (KeyError (IntKey (-1)))), h')"
        by blast
      have p: "preserved h h1"
        using expr_preserved [OF c x] .
      from reads_outputD [OF IHe preserved_length [OF p c] preserved_dom [OF p c o] y]
      show ?thesis .
    qed
  next
    case (ECall p args)
    from ECall_raise_output [OF ev [unfolded ECall]] show ?thesis
    proof
      assume "runinstr_args n args decls h c ps = Some (Raise (PyErr (KeyError (IntKey (-1)))), h')"
      from reads_outputD [OF IHa c o this] show ?thesis .
    next
      assume "\<exists>fa h1 fp blk.
             runinstr_block n blk decls (h1 @ [[-1 \<mapsto> default_output p]]) (length h1)
                (dict_zip fp fa) = Some (Raise (PyErr (KeyError (IntKey (-1)))), h')
           \<or> (runinstr_block n blk decls (h1 @ [[-1 \<mapsto> default_output p]]) (length h1)
                (dict_zip fp fa) = Some (Ret (), h') \<and> (h' ! length h1) (-1) = None)"
      then obtain fa h1 fp blk where d:
        "runinstr_block n blk decls (h1 @ [[-1 \<mapsto> default_output p]]) (length h1)
                (dict_zip fp fa) = Some (Raise (PyErr (KeyError (IntKey (-1)))), h')
           \<or> (runinstr_block n blk decls (h1 @ [[-1 \<mapsto> default_output p]]) (length h1)
                (dict_zip fp fa) = Some (Ret (), h') \<and> (h' ! length h1) (-1) = None)"
        by (elim exE)
      have c1: "length h1 < length (h1 @ [[-1 \<mapsto> default_output p]])"
        by simp
      have o1: "-1 \<in> dom ((h1 @ [[-1 \<mapsto> default_output p]]) ! length h1)"
        by simp
      from d show ?thesis
      proof
        assume "runinstr_block n blk decls (h1 @ [[-1 \<mapsto> default_output p]]) (length h1)
                (dict_zip fp fa) = Some (Raise (PyErr (KeyError (IntKey (-1)))), h')"
        from reads_outputD [OF IHb c1 o1 this] show ?thesis .
      next
        assume r: "runinstr_block n blk decls (h1 @ [[-1 \<mapsto> default_output p]]) (length h1)
                (dict_zip fp fa) = Some (Ret (), h') \<and> (h' ! length h1) (-1) = None"
        then have body: "runinstr_block n blk decls (h1 @ [[-1 \<mapsto> default_output p]]) (length h1)
                (dict_zip fp fa) = Some (Ret (), h')"
          and none: "(h' ! length h1) (-1) = None"
          by simp_all
        from frame_dom [OF block_frame [OF c1 body] o1] have "-1 \<in> dom (h' ! length h1)" .
        with none show ?thesis
          by (simp add: dom_def)
      qed
    qed
  qed
qed

lemma ro_args_Suc:
  assumes IHe: "reads_output (runinstr_expr n)"
    and IHa: "reads_output (runinstr_args n)"
  shows "reads_output (runinstr_args (Suc n))"
proof (rule reads_outputI)
  fix es decls h c ps h'
  assume c: "c < length h" and o: "-1 \<in> dom (h ! c)"
    and ev: "runinstr_args (Suc n) es decls h c ps = Some (Raise (PyErr (KeyError (IntKey (-1)))), h')"
  show False
  proof (cases es)
    case Nil
    with ev show ?thesis by simp
  next
    case (Cons a as)
    from args_raise [OF ev [unfolded Cons]] show ?thesis
    proof
      assume "runinstr_expr n a decls h c ps = Some (Raise (PyErr (KeyError (IntKey (-1)))), h')"
      from reads_outputD [OF IHe c o this] show ?thesis .
    next
      assume "\<exists>v h1. runinstr_expr n a decls h c ps = Some (Ret v, h1)
             \<and> runinstr_args n as decls h1 c ps = Some (Raise (PyErr (KeyError (IntKey (-1)))), h')"
      then obtain v h1 where x: "runinstr_expr n a decls h c ps = Some (Ret v, h1)"
        and y: "runinstr_args n as decls h1 c ps = Some (Raise (PyErr (KeyError (IntKey (-1)))), h')"
        by blast
      have p: "preserved h h1"
        using expr_preserved [OF c x] .
      from reads_outputD [OF IHa preserved_length [OF p c] preserved_dom [OF p c o] y]
      show ?thesis .
    qed
  qed
qed

lemma ro_stmt_Suc:
  assumes IHe: "reads_output (runinstr_expr n)"
    and IHb: "reads_output (runinstr_block n)"
    and IHm: "reads_output (mu_loop n)"
    and IHf: "reads_output (\<lambda>(k, b). for_range n k b)"
  shows "reads_output (runinstr_stmt (Suc n))"
proof (rule reads_outputI)
  fix s decls h c ps h'
  assume c: "c < length h" and o: "-1 \<in> dom (h ! c)"
    and ev: "runinstr_stmt (Suc n) s decls h c ps = Some (Raise (PyErr (KeyError (IntKey (-1)))), h')"
  show False
  proof (cases s)
    case (SLoop bound blk)
    show ?thesis
    proof (cases bound)
      case None
      from SLoop_None_raise [OF ev [unfolded SLoop None]]
      have "mu_loop n blk decls h c ps = Some (Raise (PyErr (KeyError (IntKey (-1)))), h')"
        by (elim disjE) simp_all
      from reads_outputD [OF IHm c o this] show ?thesis .
    next
      case (Some b)
      from SLoop_Some_raise [OF ev [unfolded SLoop Some]] show ?thesis
      proof
        assume "runinstr_expr n b decls h c ps = Some (Raise (PyErr (KeyError (IntKey (-1)))), h')"
        from reads_outputD [OF IHe c o this] show ?thesis .
      next
        assume "\<exists>v h1. runinstr_expr n b decls h c ps = Some (Ret v, h1)
             \<and> for_range n (nat (as_int v)) blk decls h1 c ps
                 = Some (Raise (PyErr (KeyError (IntKey (-1)))), h')"
        then obtain v h1 where x: "runinstr_expr n b decls h c ps = Some (Ret v, h1)"
          and y: "(\<lambda>(k, b). for_range n k b) (nat (as_int v), blk) decls h1 c ps
                 = Some (Raise (PyErr (KeyError (IntKey (-1)))), h')"
          by auto
        have p: "preserved h h1"
          using expr_preserved [OF c x] .
        from reads_outputD [OF IHf preserved_length [OF p c] preserved_dom [OF p c o] y]
        show ?thesis .
      qed
    qed
  next
    case (SCond t blk)
    from SCond_raise [OF ev [unfolded SCond]] show ?thesis
    proof
      assume "runinstr_expr n t decls h c ps = Some (Raise (PyErr (KeyError (IntKey (-1)))), h')"
      from reads_outputD [OF IHe c o this] show ?thesis .
    next
      assume "\<exists>v h1. runinstr_expr n t decls h c ps = Some (Ret v, h1)
             \<and> runinstr_block n blk decls h1 c ps = Some (Raise (PyErr (KeyError (IntKey (-1)))), h')"
      then obtain v h1 where x: "runinstr_expr n t decls h c ps = Some (Ret v, h1)"
        and y: "runinstr_block n blk decls h1 c ps = Some (Raise (PyErr (KeyError (IntKey (-1)))), h')"
        by blast
      have p: "preserved h h1"
        using expr_preserved [OF c x] .
      from reads_outputD [OF IHb preserved_length [OF p c] preserved_dom [OF p c o] y]
      show ?thesis .
    qed
  next
    case (SQuit l)
    with ev show ?thesis by simp
  next
    case (SAbort l)
    with ev show ?thesis by simp
  next
    case (SAssign lv x)
    from reads_outputD [OF IHe c o SAssign_raise [OF ev [unfolded SAssign]]] show ?thesis .
  qed
qed

lemma ro_block_Suc:
  assumes IHr: "reads_output (run n)"
  shows "reads_output (runinstr_block (Suc n))"
proof (rule reads_outputI)
  fix b decls h c ps h'
  assume c: "c < length h" and o: "-1 \<in> dom (h ! c)"
    and ev: "runinstr_block (Suc n) b decls h c ps = Some (Raise (PyErr (KeyError (IntKey (-1)))), h')"
  obtain l stmts where b: "b = Block l stmts"
    by (cases b) blast
  from reads_outputD [OF IHr c o Block_raise [OF ev [unfolded b]]] show False .
qed

lemma ro_run_Suc:
  assumes IHs: "reads_output (runinstr_stmt n)"
    and IHr: "reads_output (run n)"
  shows "reads_output (run (Suc n))"
proof (rule reads_outputI)
  fix ss decls h c ps h'
  assume c: "c < length h" and o: "-1 \<in> dom (h ! c)"
    and ev: "run (Suc n) ss decls h c ps = Some (Raise (PyErr (KeyError (IntKey (-1)))), h')"
  show False
  proof (cases ss)
    case Nil
    with ev show ?thesis by simp
  next
    case (Cons s rest)
    from run_raise [OF ev [unfolded Cons]] show ?thesis
    proof
      assume "runinstr_stmt n s decls h c ps = Some (Raise (PyErr (KeyError (IntKey (-1)))), h')"
      from reads_outputD [OF IHs c o this] show ?thesis .
    next
      assume "\<exists>h1. runinstr_stmt n s decls h c ps = Some (Ret (), h1)
             \<and> run n rest decls h1 c ps = Some (Raise (PyErr (KeyError (IntKey (-1)))), h')"
      then obtain h1 where x: "runinstr_stmt n s decls h c ps = Some (Ret (), h1)"
        and y: "run n rest decls h1 c ps = Some (Raise (PyErr (KeyError (IntKey (-1)))), h')"
        by blast
      have p: "frame c h h1"
        using stmt_frame [OF c x] .
      from reads_outputD [OF IHr frame_length [OF p c] frame_dom [OF p o] y]
      show ?thesis .
    qed
  qed
qed

lemma ro_mu_loop_Suc:
  assumes IHb: "reads_output (runinstr_block n)"
    and IHm: "reads_output (mu_loop n)"
  shows "reads_output (mu_loop (Suc n))"
proof (rule reads_outputI)
  fix b decls h c ps h'
  assume c: "c < length h" and o: "-1 \<in> dom (h ! c)"
    and ev: "mu_loop (Suc n) b decls h c ps = Some (Raise (PyErr (KeyError (IntKey (-1)))), h')"
  from mu_loop_raise [OF ev] show False
  proof
    assume "runinstr_block n b decls h c ps = Some (Raise (PyErr (KeyError (IntKey (-1)))), h')"
    from reads_outputD [OF IHb c o this] show ?thesis .
  next
    assume "\<exists>h1. runinstr_block n b decls h c ps = Some (Ret (), h1)
             \<and> mu_loop n b decls h1 c ps = Some (Raise (PyErr (KeyError (IntKey (-1)))), h')"
    then obtain h1 where x: "runinstr_block n b decls h c ps = Some (Ret (), h1)"
      and y: "mu_loop n b decls h1 c ps = Some (Raise (PyErr (KeyError (IntKey (-1)))), h')"
      by blast
    have p: "frame c h h1"
      using block_frame [OF c x] .
    from reads_outputD [OF IHm frame_length [OF p c] frame_dom [OF p o] y]
    show ?thesis .
  qed
qed

lemma ro_for_range_Suc:
  assumes IHb: "reads_output (runinstr_block n)"
    and IHf: "reads_output (\<lambda>(k, b). for_range n k b)"
  shows "reads_output (\<lambda>(k, b). for_range (Suc n) k b)"
proof (rule reads_outputI)
  fix kb decls h c ps h'
  assume c: "c < length h" and o: "-1 \<in> dom (h ! c)"
    and ev0: "(\<lambda>(k, b). for_range (Suc n) k b) kb decls h c ps
        = Some (Raise (PyErr (KeyError (IntKey (-1)))), h')"
  obtain k b where kb: "kb = (k, b)"
    by (cases kb) blast
  from ev0 have ev: "for_range (Suc n) k b decls h c ps
      = Some (Raise (PyErr (KeyError (IntKey (-1)))), h')"
    by (simp add: kb)
  show False
  proof (cases k)
    case 0
    with ev show ?thesis by simp
  next
    case (Suc j)
    from for_range_raise [OF ev [unfolded Suc]] show ?thesis
    proof
      assume "runinstr_block n b decls h c ps = Some (Raise (PyErr (KeyError (IntKey (-1)))), h')"
      from reads_outputD [OF IHb c o this] show ?thesis .
    next
      assume "\<exists>h1. runinstr_block n b decls h c ps = Some (Ret (), h1)
             \<and> for_range n j b decls h1 c ps = Some (Raise (PyErr (KeyError (IntKey (-1)))), h')"
      then obtain h1 where x: "runinstr_block n b decls h c ps = Some (Ret (), h1)"
        and y: "(\<lambda>(k, b). for_range n k b) (j, b) decls h1 c ps
            = Some (Raise (PyErr (KeyError (IntKey (-1)))), h')"
        by auto
      have p: "frame c h h1"
        using block_frame [OF c x] .
      from reads_outputD [OF IHf frame_length [OF p c] frame_dom [OF p o] y]
      show ?thesis .
    qed
  qed
qed

lemma reads_output_all:
  "reads_output (runinstr_expr n) \<and> reads_output (runinstr_args n)
   \<and> reads_output (runinstr_stmt n) \<and> reads_output (runinstr_block n) \<and> reads_output (run n)
   \<and> reads_output (mu_loop n) \<and> reads_output (\<lambda>(k, b). for_range n k b)"
proof (induction n)
  case 0
  have a: "reads_output (runinstr_args 0)"
  proof (rule reads_outputI)
    fix es decls h c ps h'
    assume "runinstr_args 0 es decls h c ps = Some (Raise (PyErr (KeyError (IntKey (-1)))), h')"
    then show False
      by (cases es) simp_all
  qed
  have b: "reads_output (run 0)"
  proof (rule reads_outputI)
    fix ss decls h c ps h'
    assume "run 0 ss decls h c ps = Some (Raise (PyErr (KeyError (IntKey (-1)))), h')"
    then show False
      by (cases ss) simp_all
  qed
  have c: "reads_output (\<lambda>(k, b). for_range 0 k b)"
  proof (rule reads_outputI)
    fix kb :: "nat \<times> block" and decls h c ps h'
    assume "(\<lambda>(k, b). for_range 0 k b) kb decls h c ps
        = Some (Raise (PyErr (KeyError (IntKey (-1)))), h')"
    then show False
      by (cases kb; cases "fst kb") simp_all
  qed
  have e0: "reads_output (runinstr_expr 0)"
    by (rule reads_outputI) simp
  have s0: "reads_output (runinstr_stmt 0)"
    by (rule reads_outputI) simp
  have b0: "reads_output (runinstr_block 0)"
    by (rule reads_outputI) simp
  have m0: "reads_output (mu_loop 0)"
    by (rule reads_outputI) simp
  note rest = e0 s0 b0 m0
  show ?case
    by (intro conjI rest a b c)
next
  case (Suc n)
  note IH = Suc.IH
  note e = IH [THEN conjunct1]
  note a = IH [THEN conjunct2, THEN conjunct1]
  note s = IH [THEN conjunct2, THEN conjunct2, THEN conjunct1]
  note b = IH [THEN conjunct2, THEN conjunct2, THEN conjunct2, THEN conjunct1]
  note r = IH [THEN conjunct2, THEN conjunct2, THEN conjunct2, THEN conjunct2, THEN conjunct1]
  note m = IH [THEN conjunct2, THEN conjunct2, THEN conjunct2, THEN conjunct2, THEN conjunct2,
      THEN conjunct1]
  note f = IH [THEN conjunct2, THEN conjunct2, THEN conjunct2, THEN conjunct2, THEN conjunct2,
      THEN conjunct2]
  show ?case
    by (intro conjI ro_expr_Suc [OF e a b] ro_args_Suc [OF e a] ro_stmt_Suc [OF e b m f]
        ro_block_Suc [OF r] ro_run_Suc [OF s r] ro_mu_loop_Suc [OF b m] ro_for_range_Suc [OF b f])
qed

lemma block_reads_output:
  assumes "c < length h" "-1 \<in> dom (h ! c)" "runinstr_block n b decls h c ps = Some (r, h')"
  shows "r \<noteq> Raise (PyErr (KeyError (IntKey (-1))))"
proof
  assume "r = Raise (PyErr (KeyError (IntKey (-1))))"
  with assms(3) have "runinstr_block n b decls h c ps
      = Some (Raise (PyErr (KeyError (IntKey (-1)))), h')"
    by simp
  note ev = this
  note ro = reads_output_all [of n, THEN conjunct2, THEN conjunct2, THEN conjunct2, THEN conjunct1]
  from reads_outputD [OF ro assms(1,2) ev] show False .
qed

section \<open>Operators\<close>

text \<open>
  C10. Whatever two values the operands evaluate to, the equality operator returns a
  Boolean and does not fail, also when one operand is a Boolean and the other an
  Integer: Boolean true equals Integer 1 and Boolean false equals Integer 0.
\<close>

theorem eq_returns_boolean:
  assumes "runinstr_expr n x decls h c ps = Some (Ret a, h1)"
      and "runinstr_expr n y decls h1 c ps = Some (Ret b, h2)"
  shows "runinstr_expr (Suc n) (EOp Eq x y) decls h c ps
           = Some (Ret (BoolV (as_int a = as_int b)), h2)
       \<and> binop_apply Eq (BoolV True) (IntV 1) = BoolV True
       \<and> binop_apply Eq (BoolV False) (IntV 0) = BoolV True"
  using assms by simp

text \<open>A cell that holds Boolean true passes the test \<open>CELL(0) = 1\<close>.\<close>

theorem eq_returns_boolean_witness:
  "runinstr_expr (Suc 0) (ECellfetch 0) Map.empty [[0 \<mapsto> BoolV True]] 0 Map.empty
     = Some (Ret (BoolV True), [[0 \<mapsto> BoolV True]])
   \<and> runinstr_expr (Suc 0) (ENum 1) Map.empty [[0 \<mapsto> BoolV True]] 0 Map.empty
     = Some (Ret (IntV 1), [[0 \<mapsto> BoolV True]])
   \<and> runinstr_expr (Suc (Suc 0)) (EOp Eq (ECellfetch 0) (ENum 1)) Map.empty
        [[0 \<mapsto> BoolV True]] 0 Map.empty
     = Some (Ret (BoolV True), [[0 \<mapsto> BoolV True]])"
proof -
  have x: "runinstr_expr (Suc 0) (ECellfetch 0) Map.empty [[0 \<mapsto> BoolV True]] 0 Map.empty
     = Some (Ret (BoolV True), [[0 \<mapsto> BoolV True]])"
    by simp
  have y: "runinstr_expr (Suc 0) (ENum 1) Map.empty [[0 \<mapsto> BoolV True]] 0 Map.empty
     = Some (Ret (IntV 1), [[0 \<mapsto> BoolV True]])"
    by simp
  from eq_returns_boolean [OF x y] x y show ?thesis
    by simp
qed

text \<open>
  C3, as the specification states it, fails: no operator checks the tags of its operands.
  With cell 0 holding Boolean true, \<open>CELL(0) + 1\<close> evaluates to the Integer 2.
\<close>

theorem plus_boolean_counterexample:
  "runinstr_expr (Suc (Suc 0)) (EOp Plus (ECellfetch 0) (ENum 1)) Map.empty
     [[0 \<mapsto> BoolV True]] 0 Map.empty
   = Some (Ret (IntV 2), [[0 \<mapsto> BoolV True]])"
  by simp

text \<open>
  C3, amended. Whatever two values the operands of an addition, multiplication, less,
  greater or equality evaluate to, the operation produces a value and raises nothing. A
  Boolean operand counts as the integer 1 (true) or 0 (false): addition and
  multiplication return the Integer sum and product, less, greater and equality the
  Boolean result of comparing the integers.
\<close>

theorem binop_no_type_error:
  assumes "runinstr_expr n x decls h c ps = Some (Ret a, h1)"
      and "runinstr_expr n y decls h1 c ps = Some (Ret b, h2)"
  shows "runinstr_expr (Suc n) (EOp instr x y) decls h c ps =
           Some (Ret (case instr of
                        Plus \<Rightarrow> IntV (as_int a + as_int b)
                      | Times \<Rightarrow> IntV (as_int a * as_int b)
                      | Lt \<Rightarrow> BoolV (as_int a < as_int b)
                      | Gt \<Rightarrow> BoolV (as_int a > as_int b)
                      | Eq \<Rightarrow> BoolV (as_int a = as_int b)), h2)
       \<and> as_int (BoolV True) = 1 \<and> as_int (BoolV False) = 0"
  using assms by (cases instr) simp_all

theorem binop_no_type_error_witness:
  "runinstr_expr (Suc 0) (ECellfetch 0) Map.empty [[0 \<mapsto> BoolV True]] 0 Map.empty
     = Some (Ret (BoolV True), [[0 \<mapsto> BoolV True]])
   \<and> runinstr_expr (Suc 0) (ENum 4) Map.empty [[0 \<mapsto> BoolV True]] 0 Map.empty
     = Some (Ret (IntV 4), [[0 \<mapsto> BoolV True]])
   \<and> runinstr_expr (Suc (Suc 0)) (EOp Lt (ECellfetch 0) (ENum 4)) Map.empty
        [[0 \<mapsto> BoolV True]] 0 Map.empty
     = Some (Ret (BoolV True), [[0 \<mapsto> BoolV True]])"
proof -
  have x: "runinstr_expr (Suc 0) (ECellfetch 0) Map.empty [[0 \<mapsto> BoolV True]] 0 Map.empty
     = Some (Ret (BoolV True), [[0 \<mapsto> BoolV True]])"
    by simp
  have y: "runinstr_expr (Suc 0) (ENum 4) Map.empty [[0 \<mapsto> BoolV True]] 0 Map.empty
     = Some (Ret (IntV 4), [[0 \<mapsto> BoolV True]])"
    by simp
  from binop_no_type_error [OF x y, of Lt] x y show ?thesis
    by simp
qed

section \<open>Procedure calls\<close>

text \<open>
  C9. A call leaves the caller's cell dictionary as it was, and with it every other
  dictionary that existed when the call began (those of the activations waiting below
  it): the heap after the call agrees with the heap before on every address of the heap
  before, whether the call returns or raises. The argument expressions are evaluated on
  the caller's dictionary and leave the whole heap as it was. The body of the callee
  runs on a new dictionary, at an address beyond all existing ones, and leaves every
  dictionary that existed before it as it was: what it and the calls within it assign
  goes to new dictionaries only. The parameter dictionary is never written by
  \<open>runinstr\<close>; the evaluator takes it as an argument and does not return it.
\<close>

theorem call_isolation:
  assumes c: "c < length h"
    and call: "runinstr_expr (Suc n) (ECall procname args) decls h c ps = Some (r, h')"
  shows "length h \<le> length h' \<and> (\<forall>a<length h. h' ! a = h ! a)
     \<and> (\<exists>ra h1. runinstr_args n args decls h c ps = Some (ra, h1)
           \<and> length h \<le> length h1 \<and> (\<forall>a<length h. h1 ! a = h ! a)
           \<and> (h' = h1 \<or> (\<exists>funcargs funcparams block rb. ra = Ret funcargs
                 \<and> decls procname = Some (funcparams, block)
                 \<and> runinstr_block n block decls (h1 @ [[-1 \<mapsto> default_output procname]])
                      (length h1) (dict_zip funcparams funcargs) = Some (rb, h')
                 \<and> (\<forall>a<length h1. h' ! a = h1 ! a))))"
proof -
  from expr_preserved [OF c call] have whole: "length h \<le> length h' \<and> (\<forall>a<length h. h' ! a = h ! a)"
    by (simp add: preserved_def)
  from ECall_heap [OF call] obtain ra h1 where
    a: "runinstr_args n args decls h c ps = Some (ra, h1)"
    and b: "h' = h1 \<or> (\<exists>fa fp blk rb. ra = Ret fa \<and> decls procname = Some (fp, blk)
                 \<and> runinstr_block n blk decls (h1 @ [[-1 \<mapsto> default_output procname]]) (length h1)
                      (dict_zip fp fa) = Some (rb, h'))"
    by blast
  from args_preserved [OF c a] have p1: "length h \<le> length h1 \<and> (\<forall>a<length h. h1 ! a = h ! a)"
    by (simp add: preserved_def)
  have "h' = h1 \<or> (\<exists>funcargs funcparams block rb. ra = Ret funcargs
                 \<and> decls procname = Some (funcparams, block)
                 \<and> runinstr_block n block decls (h1 @ [[-1 \<mapsto> default_output procname]])
                      (length h1) (dict_zip funcparams funcargs) = Some (rb, h')
                 \<and> (\<forall>a<length h1. h' ! a = h1 ! a))"
  proof (rule disjE [OF b])
    assume "h' = h1"
    then show ?thesis by simp
  next
    assume "\<exists>fa fp blk rb. ra = Ret fa \<and> decls procname = Some (fp, blk)
                 \<and> runinstr_block n blk decls (h1 @ [[-1 \<mapsto> default_output procname]]) (length h1)
                      (dict_zip fp fa) = Some (rb, h')"
    then obtain fa fp blk rb where ra: "ra = Ret fa" and d: "decls procname = Some (fp, blk)"
      and body: "runinstr_block n blk decls (h1 @ [[-1 \<mapsto> default_output procname]]) (length h1)
                      (dict_zip fp fa) = Some (rb, h')"
      by blast
    have "length h1 < length (h1 @ [[-1 \<mapsto> default_output procname]])"
      by simp
    from block_frame [OF this body] have "preserved h1 h'"
      by (rule frame_fresh)
    then have "\<forall>a<length h1. h' ! a = h1 ! a"
      by (simp add: preserved_def)
    with ra d body show ?thesis
      by blast
  qed
  with whole a p1 show ?thesis
    by blast
qed

text \<open>
  The caller holds 5 in cell 0 and calls \<open>f(CELL(0))\<close>; \<open>f\<close> stores 9 in its own cell 0
  and returns \<open>CELL(0) + A\<close>. The call returns 14, and the caller's cell 0 still holds 5.
\<close>

theorem call_isolation_witness:
  "case runinstr_expr 7 (ECall ''f'' [ECellfetch 0])
          [''f'' \<mapsto> ([''A''], Block 0 [SAssign (LCell 0) (ENum 9),
                 SAssign (LCell (-1)) (EOp Plus (ECellfetch 0) (EParamfetch ''A''))])]
          [[0 \<mapsto> IntV 5]] 0 Map.empty of
     None \<Rightarrow> False
   | Some (r, h') \<Rightarrow> r = Ret (IntV 14) \<and> (h' ! 0) 0 = Some (IntV 5) \<and> (h' ! 1) 0 = Some (IntV 9)"
proof -
  let ?decls = "[''f'' \<mapsto> ([''A''], Block 0 [SAssign (LCell 0) (ENum 9),
                 SAssign (LCell (-1)) (EOp Plus (ECellfetch 0) (EParamfetch ''A''))])]"
  obtain r h' where call: "runinstr_expr (Suc 6) (ECall ''f'' [ECellfetch 0]) ?decls
      [[0 \<mapsto> IntV 5]] 0 Map.empty = Some (r, h')"
    and r: "r = Ret (IntV 14)" and own: "(h' ! 1) 0 = Some (IntV 9)"
    by (simp add: eval_nat_numeral dict_zip_def default_output_def endswith_qmark_def)
  have c: "(0::nat) < length [[0 \<mapsto> IntV 5]]"
    by simp
  from call_isolation [OF c call] have "h' ! 0 = [[0 \<mapsto> IntV 5]] ! 0"
    by simp
  with call r own show ?thesis
    by (simp add: eval_nat_numeral)
qed

text \<open>
  C4. A call that returns a value has evaluated its arguments, found the procedure, and
  run the body on a new cell dictionary, appended to the heap, that held nothing but
  the output cell -1, set to Boolean false when the procedure's name ends in \<open>?\<close> and to
  Integer 0 otherwise; the body has returned normally, and the value of the call is what
  cell -1 of that dictionary holds at the end. So \<open>add(2, 3)\<close> with the body
  \<open>OUTPUT <= A + B\<close> returns 5, and the predicate \<open>is_zero?\<close> (the transformer appends a
  second \<open>?\<close> to the name) returns Boolean false on 3, where it does not assign the
  output.
\<close>

theorem call_returns_output_cell:
  assumes "runinstr_expr (Suc n) (ECall procname args) decls h c ps = Some (Ret v, h')"
  shows "(\<exists>funcargs h1 funcparams block.
            runinstr_args n args decls h c ps = Some (Ret funcargs, h1)
          \<and> decls procname = Some (funcparams, block)
          \<and> runinstr_block n block decls
               (h1 @ [[-1 \<mapsto> (if endswith_qmark procname then BoolV False else IntV 0)]])
               (length h1) (dict_zip funcparams funcargs) = Some (Ret (), h')
          \<and> (h' ! length h1) (-1) = Some v)
     \<and> map_option fst (main_run 6
          [TDecl ''add'' [''A'', ''B'']
             (Block 0 [SAssign (LCell (-1)) (EOp Plus (EParamfetch ''A'') (EParamfetch ''B''))]),
           TCall ''add'' [ENum 2, ENum 3]]) = Some (Ret (Some (IntV 5)))
     \<and> map_option fst (main_run 6
          [TDecl ''is_zero??'' [''X'']
             (Block 0 [SCond (EOp Eq (EParamfetch ''X'') (ENum 0))
                (Block 1 [SAssign (LCell (-1)) (EBool True)])]),
           TCall ''is_zero??'' [ENum 3]]) = Some (Ret (Some (BoolV False)))"
proof -
  have "map_option fst (main_run 6
          [TDecl ''add'' [''A'', ''B'']
             (Block 0 [SAssign (LCell (-1)) (EOp Plus (EParamfetch ''A'') (EParamfetch ''B''))]),
           TCall ''add'' [ENum 2, ENum 3]]) = Some (Ret (Some (IntV 5)))"
    by code_simp
  moreover have "map_option fst (main_run 6
          [TDecl ''is_zero??'' [''X'']
             (Block 0 [SCond (EOp Eq (EParamfetch ''X'') (ENum 0))
                (Block 1 [SAssign (LCell (-1)) (EBool True)])]),
           TCall ''is_zero??'' [ENum 3]]) = Some (Ret (Some (BoolV False)))"
    by code_simp
  moreover from ECall_Ret [OF assms] have "\<exists>funcargs h1 funcparams block.
            runinstr_args n args decls h c ps = Some (Ret funcargs, h1)
          \<and> decls procname = Some (funcparams, block)
          \<and> runinstr_block n block decls
               (h1 @ [[-1 \<mapsto> (if endswith_qmark procname then BoolV False else IntV 0)]])
               (length h1) (dict_zip funcparams funcargs) = Some (Ret (), h')
          \<and> (h' ! length h1) (-1) = Some v"
    by (simp add: default_output_def)
  ultimately show ?thesis
    by blast
qed

text \<open>On 0 the predicate assigns the output, and the call returns what its cell -1 holds.\<close>

theorem call_returns_output_cell_witness:
  "case runinstr_expr 8 (ECall ''is_zero??'' [ENum 0])
          [''is_zero??'' \<mapsto> ([''X''], Block 0 [SCond (EOp Eq (EParamfetch ''X'') (ENum 0))
                (Block 1 [SAssign (LCell (-1)) (EBool True)])])]
          [Map.empty] 0 Map.empty of
     None \<Rightarrow> False
   | Some (r, h') \<Rightarrow> r = Ret (BoolV True) \<and> (h' ! 1) (-1) = Some (BoolV True)"
proof -
  let ?decls = "[''is_zero??'' \<mapsto> ([''X''], Block 0 [SCond (EOp Eq (EParamfetch ''X'') (ENum 0))
                (Block 1 [SAssign (LCell (-1)) (EBool True)])])]"
  obtain h' where call: "runinstr_expr (Suc 7) (ECall ''is_zero??'' [ENum 0]) ?decls
      [Map.empty] 0 Map.empty = Some (Ret (BoolV True), h')"
    by (simp add: eval_nat_numeral dict_zip_def default_output_def endswith_qmark_def)
  have args: "runinstr_args 7 [ENum 0] ?decls [Map.empty] 0 Map.empty = Some (Ret [IntV 0], [Map.empty])"
    by (simp add: eval_nat_numeral)
  from call_returns_output_cell [OF call] args have "(h' ! 1) (-1) = Some (BoolV True)"
    by auto
  with call show ?thesis
    by (simp add: eval_nat_numeral)
qed

text \<open>
  C2, as the specification states it, fails: nothing compares the number of arguments with
  the number of parameters. \<open>f\<close> has the parameters \<open>A\<close> and \<open>B\<close> and returns \<open>A\<close>; the
  call \<open>f(7)\<close> returns 7.
\<close>

theorem arity_mismatch_counterexample:
  "map_option fst (main_run 6
     [TDecl ''f'' [''A'', ''B''] (Block 0 [SAssign (LCell (-1)) (EParamfetch ''A'')]),
      TCall ''f'' [ENum 7]]) = Some (Ret (Some (IntV 7)))"
  by code_simp

text \<open>
  C2, amended. A call whose arguments evaluate, whose procedure is declared and whose
  body returns normally returns the output cell, however many arguments and parameters
  there are: no arity error exists. The body runs with the parameters bound by
  \<open>zip\<close>: exactly the first \<open>length args\<close> parameters are bound (all of them when
  there are fewer), and, the parameter names being distinct, the \<open>i\<close>-th parameter to
  the \<open>i\<close>-th argument; arguments beyond the parameters are dropped.
\<close>

theorem call_binds_common_prefix:
  assumes args: "runinstr_args n args decls h c ps = Some (Ret funcargs, h1)"
    and decl: "decls procname = Some (funcparams, block)"
    and body: "runinstr_block n block decls (h1 @ [[-1 \<mapsto> default_output procname]])
                 (length h1) (dict_zip funcparams funcargs) = Some (Ret (), h2)"
    and out: "(h2 ! length h1) (-1) = Some v"
  shows "runinstr_expr (Suc n) (ECall procname args) decls h c ps = Some (Ret v, h2)
     \<and> length funcargs = length args
     \<and> dom (dict_zip funcparams funcargs) = set (take (length args) funcparams)
     \<and> (distinct funcparams \<longrightarrow>
          (\<forall>i. i < length funcparams \<and> i < length args \<longrightarrow>
             dict_zip funcparams funcargs (funcparams ! i) = Some (funcargs ! i)))"
proof -
  have len: "length funcargs = length args"
    using args by (rule args_length)
  have "runinstr_expr (Suc n) (ECall procname args) decls h c ps = Some (Ret v, h2)"
    using args decl body out by simp
  moreover have "dom (dict_zip funcparams funcargs) = set (take (length args) funcparams)"
    using dom_dict_zip [of funcparams funcargs] len by simp
  moreover have "distinct funcparams \<longrightarrow>
          (\<forall>i. i < length funcparams \<and> i < length args \<longrightarrow>
             dict_zip funcparams funcargs (funcparams ! i) = Some (funcargs ! i))"
    using dict_zip_nth len by auto
  ultimately show ?thesis
    using len by blast
qed

theorem call_binds_common_prefix_witness:
  "runinstr_expr 5 (ECall ''f'' [ENum 7])
      [''f'' \<mapsto> ([''A'', ''B''], Block 0 [SAssign (LCell (-1)) (EParamfetch ''A'')])]
      [Map.empty] 0 Map.empty
    = Some (Ret (IntV 7), [Map.empty, [-1 \<mapsto> IntV 7]])
   \<and> dom (dict_zip [''A'', ''B''] [IntV 7]) = {''A''}"
proof -
  let ?block = "Block 0 [SAssign (LCell (-1)) (EParamfetch ''A'')]"
  let ?decls = "[''f'' \<mapsto> ([''A'', ''B''], ?block)]"
  have args: "runinstr_args 4 [ENum 7] ?decls [Map.empty] 0 Map.empty
      = Some (Ret [IntV 7], [Map.empty])"
    by (simp add: eval_nat_numeral)
  have decl: "?decls ''f'' = Some ([''A'', ''B''], ?block)"
    by simp
  have body: "runinstr_block 4 ?block ?decls ([Map.empty] @ [[-1 \<mapsto> default_output ''f'']])
      (length [Map.empty :: cells]) (dict_zip [''A'', ''B''] [IntV 7])
      = Some (Ret (), [Map.empty, [-1 \<mapsto> IntV 7]])"
    by (simp add: eval_nat_numeral dict_zip_def default_output_def endswith_qmark_def)
  have out: "([Map.empty, [-1 \<mapsto> IntV 7]] ! length [Map.empty :: cells]) (-1) = Some (IntV 7)"
    by simp
  from call_binds_common_prefix [OF args decl body out] show ?thesis
    by (simp add: eval_nat_numeral)
qed

section \<open>Loops and exits\<close>

text \<open>
  C1, evaluated on the code. The \<open>while True\<close> loop of a mu-loop is left when the body
  raises \<open>Abort\<close> with the label of the body block: on the specification's scenario (a
  counter in cell 0, incremented on each pass, and \<open>ABORT LOOP 1\<close> under
  \<open>IF CELL(0) = 5\<close>) it is left during the fifth pass with 5 in cell 0. But the
  statement does not end there: control goes on to the code of the bounded loop, which
  evaluates the bound \<open>None\<close> and raises \<open>TypeError\<close>. A mu-loop statement therefore
  never terminates normally, and a program that runs the scenario inside a procedure
  ends with \<open>TypeError\<close>, the procedure's output cell still at its default.
\<close>

theorem mu_loop_abort_falls_through:
  "runinstr_stmt n (SLoop None block) decls h c ps \<noteq> Some (Ret (), h')
   \<and> (case main_run 20
          [TDecl ''count'' [''X'']
             (Block 0 [SAssign (LCell 0) (ENum 0),
                SLoop None (Block 1 [SAssign (LCell 0) (EOp Plus (ECellfetch 0) (ENum 1)),
                   SCond (EOp Eq (ECellfetch 0) (ENum 5)) (Block 2 [SAbort 1])]),
                SAssign (LCell (-1)) (ECellfetch 0)]),
           TCall ''count'' [ENum 0]] of
         None \<Rightarrow> False
       | Some (r, decls', h') \<Rightarrow>
           r = Raise (PyErr TypeError) \<and> (h' ! 1) 0 = Some (IntV 5) \<and> (h' ! 1) (-1) = Some (IntV 0))
   \<and> (case mu_loop 12
          (Block 1 [SAssign (LCell 0) (EOp Plus (ECellfetch 0) (ENum 1)),
             SCond (EOp Eq (ECellfetch 0) (ENum 5)) (Block 2 [SAbort 1])])
          Map.empty [[0 \<mapsto> IntV 0]] 0 Map.empty of
         None \<Rightarrow> False
       | Some (r, h') \<Rightarrow> r = Ret () \<and> (h' ! 0) 0 = Some (IntV 5))"
proof -
  have "runinstr_stmt n (SLoop None block) decls h c ps \<noteq> Some (Ret (), h')"
    by (rule mu_loop_stmt_never_returns)
  moreover have "case main_run 20
          [TDecl ''count'' [''X'']
             (Block 0 [SAssign (LCell 0) (ENum 0),
                SLoop None (Block 1 [SAssign (LCell 0) (EOp Plus (ECellfetch 0) (ENum 1)),
                   SCond (EOp Eq (ECellfetch 0) (ENum 5)) (Block 2 [SAbort 1])]),
                SAssign (LCell (-1)) (ECellfetch 0)]),
           TCall ''count'' [ENum 0]] of
         None \<Rightarrow> False
       | Some (r, decls', h') \<Rightarrow>
           r = Raise (PyErr TypeError) \<and> (h' ! 1) 0 = Some (IntV 5) \<and> (h' ! 1) (-1) = Some (IntV 0)"
    by code_simp
  moreover have "case mu_loop 12
          (Block 1 [SAssign (LCell 0) (EOp Plus (ECellfetch 0) (ENum 1)),
             SCond (EOp Eq (ECellfetch 0) (ENum 5)) (Block 2 [SAbort 1])])
          Map.empty [[0 \<mapsto> IntV 0]] 0 Map.empty of
         None \<Rightarrow> False
       | Some (r, h') \<Rightarrow> r = Ret () \<and> (h' ! 0) 0 = Some (IntV 5)"
    by code_simp
  ultimately show ?thesis
    by blast
qed

text \<open>
  C5. \<open>QUIT BLOCK b\<close> raises the block-exit signal \<open>Break b\<close>. A signal raised by a
  statement ends the statement list it is in, the statements after it skipped. The block
  around the list swallows the signal when its own label is \<open>b\<close>, and completes normally
  with the heap as the signal left it; a block with another label raises the same signal
  again. Conditionals and loops, bounded or not, pass the signal on: only a block
  stops it. When the signal is aimed at the body block of a loop, the pass ends
  normally and the loop goes on with its next pass. In the program of the last
  conjunct a \<open>QUIT BLOCK 1\<close> inside a conditional inside an inner loop ends each of the
  two passes of the outer loop, whose body is block 1, before the assignment of 100.
\<close>

theorem quit_caught_by_its_block:
  "runinstr_stmt (Suc n) (SQuit b) decls h c ps = Some (Raise (Break b), h)
   \<and> (runinstr_stmt n s decls h c ps = Some (Raise (Break b), h')
        \<longrightarrow> run (Suc n) (s # rest) decls h c ps = Some (Raise (Break b), h'))
   \<and> (run n stmts decls h c ps = Some (Raise (Break b), h')
        \<longrightarrow> runinstr_block (Suc n) (Block l stmts) decls h c ps
              = (if b = l then Some (Ret (), h') else Some (Raise (Break b), h')))
   \<and> (runinstr_expr n t decls h c ps = Some (Ret v, ht) \<and> truthy v
          \<and> runinstr_block n blk decls ht c ps = Some (Raise (Break b), h')
        \<longrightarrow> runinstr_stmt (Suc n) (SCond t blk) decls h c ps = Some (Raise (Break b), h'))
   \<and> (runinstr_block n blk decls h c ps = Some (Raise (Break b), h')
        \<longrightarrow> mu_loop (Suc n) blk decls h c ps = Some (Raise (Break b), h')
          \<and> for_range (Suc n) (Suc k) blk decls h c ps = Some (Raise (Break b), h'))
   \<and> (mu_loop n blk decls h c ps = Some (Raise (Break b), h')
        \<longrightarrow> runinstr_stmt (Suc n) (SLoop None blk) decls h c ps = Some (Raise (Break b), h'))
   \<and> (runinstr_expr n e decls h c ps = Some (Ret v, ht)
          \<and> for_range n (nat (as_int v)) blk decls ht c ps = Some (Raise (Break b), h')
        \<longrightarrow> runinstr_stmt (Suc n) (SLoop (Some e) blk) decls h c ps = Some (Raise (Break b), h'))
   \<and> (run n stmts decls h c ps = Some (Raise (Break l), h')
        \<longrightarrow> for_range (Suc (Suc n)) (Suc k) (Block l stmts) decls h c ps
              = for_range (Suc n) k (Block l stmts) decls h' c ps
          \<and> mu_loop (Suc (Suc n)) (Block l stmts) decls h c ps
              = mu_loop (Suc n) (Block l stmts) decls h' c ps)
   \<and> (case runinstr_stmt 16
          (SLoop (Some (ENum 2))
             (Block 1 [SAssign (LCell 0) (EOp Plus (ECellfetch 0) (ENum 1)),
                SLoop (Some (ENum 3)) (Block 2 [SCond (EBool True) (Block 3 [SQuit 1])]),
                SAssign (LCell 0) (ENum 100)]))
          Map.empty [[0 \<mapsto> IntV 0]] 0 Map.empty of
         None \<Rightarrow> False
       | Some (r, hr) \<Rightarrow> r = Ret () \<and> (hr ! 0) 0 = Some (IntV 2))"
proof -
  have "case runinstr_stmt 16
          (SLoop (Some (ENum 2))
             (Block 1 [SAssign (LCell 0) (EOp Plus (ECellfetch 0) (ENum 1)),
                SLoop (Some (ENum 3)) (Block 2 [SCond (EBool True) (Block 3 [SQuit 1])]),
                SAssign (LCell 0) (ENum 100)]))
          Map.empty [[0 \<mapsto> IntV 0]] 0 Map.empty of
         None \<Rightarrow> False
       | Some (r, hr) \<Rightarrow> r = Ret () \<and> (hr ! 0) 0 = Some (IntV 2)"
    by code_simp
  then show ?thesis
    by simp
qed

theorem quit_caught_by_its_block_witness:
  "run (Suc (Suc 0)) [SQuit 1, SAssign (LCell 0) (ENum 100)] Map.empty [[0 \<mapsto> IntV 0]] 0 Map.empty
     = Some (Raise (Break 1), [[0 \<mapsto> IntV 0]])
   \<and> runinstr_block (Suc (Suc (Suc 0))) (Block 1 [SQuit 1, SAssign (LCell 0) (ENum 100)])
        Map.empty [[0 \<mapsto> IntV 0]] 0 Map.empty
     = Some (Ret (), [[0 \<mapsto> IntV 0]])
   \<and> runinstr_block (Suc (Suc (Suc 0))) (Block 2 [SQuit 1, SAssign (LCell 0) (ENum 100)])
        Map.empty [[0 \<mapsto> IntV 0]] 0 Map.empty
     = Some (Raise (Break 1), [[0 \<mapsto> IntV 0]])
   \<and> runinstr_stmt (Suc (Suc (Suc (Suc 0))))
        (SCond (EBool True) (Block 2 [SQuit 1, SAssign (LCell 0) (ENum 100)]))
        Map.empty [[0 \<mapsto> IntV 0]] 0 Map.empty
     = Some (Raise (Break 1), [[0 \<mapsto> IntV 0]])
   \<and> for_range (Suc (Suc (Suc (Suc 0)))) (Suc 0) (Block 2 [SQuit 1, SAssign (LCell 0) (ENum 100)])
        Map.empty [[0 \<mapsto> IntV 0]] 0 Map.empty
     = Some (Raise (Break 1), [[0 \<mapsto> IntV 0]])
   \<and> runinstr_stmt (Suc (Suc (Suc (Suc (Suc 0)))))
        (SLoop None (Block 2 [SQuit 1, SAssign (LCell 0) (ENum 100)]))
        Map.empty [[0 \<mapsto> IntV 0]] 0 Map.empty
     = Some (Raise (Break 1), [[0 \<mapsto> IntV 0]])
   \<and> runinstr_stmt (Suc (Suc (Suc (Suc (Suc 0)))))
        (SLoop (Some (ENum 1)) (Block 2 [SQuit 1, SAssign (LCell 0) (ENum 100)]))
        Map.empty [[0 \<mapsto> IntV 0]] 0 Map.empty
     = Some (Raise (Break 1), [[0 \<mapsto> IntV 0]])
   \<and> for_range (Suc (Suc (Suc (Suc 0)))) (Suc 0) (Block 1 [SQuit 1, SAssign (LCell 0) (ENum 100)])
        Map.empty [[0 \<mapsto> IntV 0]] 0 Map.empty
     = Some (Ret (), [[0 \<mapsto> IntV 0]])"
proof -
  let ?stmts = "[SQuit 1, SAssign (LCell 0) (ENum 100)]"
  let ?h = "[[0 \<mapsto> IntV 0]] :: heap"
  let ?d = "Map.empty :: decls"
  let ?ps = "Map.empty :: params"
  note q = quit_caught_by_its_block [where decls = ?d and h = ?h and c = 0 and ps = ?ps
      and b = 1 and h' = ?h and ht = ?h]
  have s: "runinstr_stmt (Suc 0) (SQuit 1) ?d ?h 0 ?ps = Some (Raise (Break 1), ?h)"
    using q [where n = 0] by blast
  have r: "run (Suc (Suc 0)) ?stmts ?d ?h 0 ?ps = Some (Raise (Break 1), ?h)"
    using s q [where n = "Suc 0" and s = "SQuit 1" and rest = "[SAssign (LCell 0) (ENum 100)]"]
    by blast
  have b1: "runinstr_block (Suc (Suc (Suc 0))) (Block 1 ?stmts) ?d ?h 0 ?ps = Some (Ret (), ?h)"
    using r q [where n = "Suc (Suc 0)" and stmts = ?stmts and l = 1] by simp
  have b2: "runinstr_block (Suc (Suc (Suc 0))) (Block 2 ?stmts) ?d ?h 0 ?ps
      = Some (Raise (Break 1), ?h)"
    using r q [where n = "Suc (Suc 0)" and stmts = ?stmts and l = 2] by simp
  have t: "runinstr_expr (Suc (Suc (Suc 0))) (EBool True) ?d ?h 0 ?ps = Some (Ret (BoolV True), ?h)"
    by simp
  have cd: "runinstr_stmt (Suc (Suc (Suc (Suc 0)))) (SCond (EBool True) (Block 2 ?stmts)) ?d ?h 0 ?ps
      = Some (Raise (Break 1), ?h)"
    using t b2 q [where n = "Suc (Suc (Suc 0))" and t = "EBool True" and v = "BoolV True"
        and blk = "Block 2 ?stmts"]
    by simp
  have f2: "for_range (Suc (Suc (Suc (Suc 0)))) (Suc 0) (Block 2 ?stmts) ?d ?h 0 ?ps
      = Some (Raise (Break 1), ?h)"
    and m2: "mu_loop (Suc (Suc (Suc (Suc 0)))) (Block 2 ?stmts) ?d ?h 0 ?ps
      = Some (Raise (Break 1), ?h)"
    using b2 q [where n = "Suc (Suc (Suc 0))" and blk = "Block 2 ?stmts" and k = 0] by blast+
  have lm: "runinstr_stmt (Suc (Suc (Suc (Suc (Suc 0))))) (SLoop None (Block 2 ?stmts)) ?d ?h 0 ?ps
      = Some (Raise (Break 1), ?h)"
    using m2 q [where n = "Suc (Suc (Suc (Suc 0)))" and blk = "Block 2 ?stmts"] by blast
  have e: "runinstr_expr (Suc (Suc (Suc (Suc 0)))) (ENum 1) ?d ?h 0 ?ps = Some (Ret (IntV 1), ?h)"
    by simp
  have lb: "runinstr_stmt (Suc (Suc (Suc (Suc (Suc 0))))) (SLoop (Some (ENum 1)) (Block 2 ?stmts))
      ?d ?h 0 ?ps = Some (Raise (Break 1), ?h)"
    using e f2 q [where n = "Suc (Suc (Suc (Suc 0)))" and e = "ENum 1" and v = "IntV 1"
        and blk = "Block 2 ?stmts"]
    by simp
  have f1: "for_range (Suc (Suc (Suc (Suc 0)))) (Suc 0) (Block 1 ?stmts) ?d ?h 0 ?ps
      = Some (Ret (), ?h)"
    using r q [where n = "Suc (Suc 0)" and stmts = ?stmts and l = 1 and k = 0] by simp
  from r b1 b2 cd f2 lm lb f1 show ?thesis
    by blast
qed

text \<open>
  C6. A bounded loop evaluates its bound once, before the first pass; evaluating it
  leaves every cell dictionary as it was. With \<open>N\<close> the value of the bound as a
  natural number, the loop then is \<open>for_range\<close> with \<open>N\<close> passes to make, which never
  looks at the bound again. Whatever the loop returns, it has evaluated the body at
  most \<open>N\<close> times, one pass after the other on the same cell dictionary \<open>c\<close> and with
  the same parameters, each pass starting from the heap that the pass before left:
  either \<open>N\<close> passes that returned normally, or fewer and then one pass that raised an
  exception; when that exception is \<open>Abort\<close> with the label of the body block, the
  loop ends normally there. When \<open>N\<close> is 0 there is no pass, and the statement returns
  with the heap that the evaluation of the bound left.
\<close>

theorem bounded_loop_passes:
  assumes c: "c < length h"
    and bound: "runinstr_expr n e decls h c ps = Some (Ret v, hb)"
  shows "runinstr_stmt (Suc n) (SLoop (Some e) block) decls h c ps
           = for_range n (nat (as_int v)) block decls hb c ps
     \<and> length h \<le> length hb \<and> (\<forall>a<length h. hb ! a = h ! a)
     \<and> (as_int v \<le> 0 \<longrightarrow>
           runinstr_stmt (Suc n) (SLoop (Some e) block) decls h c ps = Some (Ret (), hb))
     \<and> (\<forall>r h'. runinstr_stmt (Suc n) (SLoop (Some e) block) decls h c ps = Some (r, h') \<longrightarrow>
           (\<exists>j hj. j \<le> nat (as_int v) \<and> passes n j block decls hb c ps = Some hj
              \<and> ((j = nat (as_int v) \<and> r = Ret () \<and> h' = hj)
                 \<or> (j < nat (as_int v)
                    \<and> (\<exists>x. runinstr_block (n - Suc j) block decls hj c ps = Some (Raise x, h')
                          \<and> r = (if x = Abort (blocknum_of block) then Ret () else Raise x))))))"
proof -
  have eq: "runinstr_stmt (Suc n) (SLoop (Some e) block) decls h c ps
           = for_range n (nat (as_int v)) block decls hb c ps"
    using bound by simp
  from expr_preserved [OF c bound]
  have p1: "length h \<le> length hb" and p2: "\<forall>a<length h. hb ! a = h ! a"
    by (simp_all add: preserved_def)
  have z: "as_int v \<le> 0 \<longrightarrow>
           runinstr_stmt (Suc n) (SLoop (Some e) block) decls h c ps = Some (Ret (), hb)"
    using eq by simp
  have ps: "\<forall>r h'. runinstr_stmt (Suc n) (SLoop (Some e) block) decls h c ps = Some (r, h') \<longrightarrow>
           (\<exists>j hj. j \<le> nat (as_int v) \<and> passes n j block decls hb c ps = Some hj
              \<and> ((j = nat (as_int v) \<and> r = Ret () \<and> h' = hj)
                 \<or> (j < nat (as_int v)
                    \<and> (\<exists>x. runinstr_block (n - Suc j) block decls hj c ps = Some (Raise x, h')
                          \<and> r = (if x = Abort (blocknum_of block) then Ret () else Raise x)))))"
  proof (intro allI impI)
    fix r h'
    assume "runinstr_stmt (Suc n) (SLoop (Some e) block) decls h c ps = Some (r, h')"
    then have "for_range n (nat (as_int v)) block decls hb c ps = Some (r, h')"
      using eq by simp
    then show "\<exists>j hj. j \<le> nat (as_int v) \<and> passes n j block decls hb c ps = Some hj
              \<and> ((j = nat (as_int v) \<and> r = Ret () \<and> h' = hj)
                 \<or> (j < nat (as_int v)
                    \<and> (\<exists>x. runinstr_block (n - Suc j) block decls hj c ps = Some (Raise x, h')
                          \<and> r = (if x = Abort (blocknum_of block) then Ret () else Raise x))))"
      by (rule for_range_passes)
  qed
  show ?thesis
    by (intro conjI eq p1 p2 z ps)
qed


text \<open>
  \<open>LOOP 3 TIMES\<close> over a body that increments cell 0 and aborts the loop when the cell
  holds 2 ends normally with 2 in the cell; \<open>LOOP 0 TIMES\<close> leaves the cell at 0.
\<close>

theorem bounded_loop_passes_witness:
  "runinstr_expr 10 (ENum 3) Map.empty [[0 \<mapsto> IntV 0]] 0 Map.empty
     = Some (Ret (IntV 3), [[0 \<mapsto> IntV 0]])
   \<and> (case runinstr_stmt (Suc 10)
          (SLoop (Some (ENum 3))
             (Block 1 [SAssign (LCell 0) (EOp Plus (ECellfetch 0) (ENum 1)),
                SCond (EOp Eq (ECellfetch 0) (ENum 2)) (Block 2 [SAbort 1])]))
          Map.empty [[0 \<mapsto> IntV 0]] 0 Map.empty of
         None \<Rightarrow> False
       | Some (r, hr) \<Rightarrow> r = Ret () \<and> (hr ! 0) 0 = Some (IntV 2))
   \<and> runinstr_expr 10 (ENum 0) Map.empty [[0 \<mapsto> IntV 0]] 0 Map.empty
     = Some (Ret (IntV 0), [[0 \<mapsto> IntV 0]])
   \<and> runinstr_stmt (Suc 10)
        (SLoop (Some (ENum 0))
           (Block 1 [SAssign (LCell 0) (EOp Plus (ECellfetch 0) (ENum 1)),
              SCond (EOp Eq (ECellfetch 0) (ENum 2)) (Block 2 [SAbort 1])]))
        Map.empty [[0 \<mapsto> IntV 0]] 0 Map.empty
     = Some (Ret (), [[0 \<mapsto> IntV 0]])"
proof -
  let ?block = "Block 1 [SAssign (LCell 0) (EOp Plus (ECellfetch 0) (ENum 1)),
                SCond (EOp Eq (ECellfetch 0) (ENum 2)) (Block 2 [SAbort 1])]"
  let ?h = "[[0 \<mapsto> IntV 0]] :: heap"
  let ?d = "Map.empty :: decls"
  let ?ps = "Map.empty :: params"
  have c: "(0::nat) < length ?h"
    by simp
  have three: "runinstr_expr 10 (ENum 3) ?d ?h 0 ?ps = Some (Ret (IntV 3), ?h)"
    by (simp add: eval_nat_numeral)
  have zero: "runinstr_expr 10 (ENum 0) ?d ?h 0 ?ps = Some (Ret (IntV 0), ?h)"
    by (simp add: eval_nat_numeral)
  have e3: "runinstr_stmt (Suc 10) (SLoop (Some (ENum 3)) ?block) ?d ?h 0 ?ps
      = for_range 10 (nat (as_int (IntV 3))) ?block ?d ?h 0 ?ps"
    by (rule bounded_loop_passes [OF c three, THEN conjunct1])
  have f3: "case for_range 10 (nat (as_int (IntV 3))) ?block ?d ?h 0 ?ps of
         None \<Rightarrow> False
       | Some (r, hr) \<Rightarrow> r = Ret () \<and> (hr ! 0) 0 = Some (IntV 2)"
    by code_simp
  have l3: "case runinstr_stmt (Suc 10) (SLoop (Some (ENum 3)) ?block) ?d ?h 0 ?ps of
         None \<Rightarrow> False
       | Some (r, hr) \<Rightarrow> r = Ret () \<and> (hr ! 0) 0 = Some (IntV 2)"
    unfolding e3 by (rule f3)
  have l0: "runinstr_stmt (Suc 10) (SLoop (Some (ENum 0)) ?block) ?d ?h 0 ?ps = Some (Ret (), ?h)"
    by (rule bounded_loop_passes [OF c zero, THEN conjunct2, THEN conjunct2, THEN conjunct2,
          THEN conjunct1, THEN mp]) simp
  from three l3 zero l0 show ?thesis
    by (intro conjI)
qed

section \<open>The block validator\<close>

text \<open>
  C7. On a parse tree whose blocks begin and end with a number token, as the grammar
  has it, the visit of \<open>CheckBlocks\<close> returns the tree if and only if in every subtree
  of the rule \<open>block\<close> the open and the close label are the same number. A tree with a
  block whose close label is another number than its open label is rejected; so changing
  one close label of an accepted tree to a different number causes rejection. A
  rejection is a \<open>SemanticError\<close> for some block of the tree whose two labels differ:
  it keeps the token of the open label, and its message holds that token's line and
  column and the two numbers. The main program returns that error without calling the
  transformer or the evaluator, whatever they are; it runs them only when the visit
  has returned the tree.
\<close>

theorem block_validator:
  assumes wf: "wf_blocks tree"
  shows "(visit tree = Inr tree \<longleftrightarrow>
            (\<forall>t\<in>set (subtrees tree). data t = ''block'' \<longrightarrow> (\<exists>a. block_labels t = Some (a, a))))
     \<and> ((\<exists>t\<in>set (subtrees tree). data t = ''block''
            \<and> (\<exists>a b. block_labels t = Some (a, b) \<and> a \<noteq> b)) \<longrightarrow> (\<exists>e. visit tree = Inl e))
     \<and> (\<forall>e. visit tree = Inl e \<longrightarrow>
           (\<exists>t\<in>set (subtrees tree). \<exists>a b k rest. data t = ''block'' \<and> children t = Tok k # rest
              \<and> block_labels t = Some (a, b) \<and> a \<noteq> b
              \<and> e = SemanticError (''['' @ str_nat (line k) @ '':'' @ str_nat (column k) @ '']: ''
                     @ ''Block numbers do not match: '' @ str_nat a @ '' vs '' @ str_nat b) k))
     \<and> (\<forall>e transform n. visit tree = Inl e \<longrightarrow> main transform n tree = Inl e)
     \<and> (\<forall>transform n. visit tree = Inr tree \<longrightarrow>
           main transform n tree = Inr (main_run n (transform tree)))"
proof -
  have labelled: "data t = ''block'' \<longrightarrow> block_labels t \<noteq> None" if "t \<in> set (subtrees tree)" for t
    using wf that by (simp add: wf_blocks_def)
  have ok: "visit tree = Inr tree \<longleftrightarrow>
            (\<forall>t\<in>set (subtrees tree). data t = ''block'' \<longrightarrow> (\<exists>a. block_labels t = Some (a, a)))"
    unfolding visit_ok_iff visit_subtrees_ok set_iter_subtrees
    using call_userfunc_ok_iff [OF labelled] by blast
  have rej: "(\<exists>t\<in>set (subtrees tree). data t = ''block''
            \<and> (\<exists>a b. block_labels t = Some (a, b) \<and> a \<noteq> b)) \<longrightarrow> (\<exists>e. visit tree = Inl e)"
  proof
    assume "\<exists>t\<in>set (subtrees tree). data t = ''block''
            \<and> (\<exists>a b. block_labels t = Some (a, b) \<and> a \<noteq> b)"
    then have "visit tree \<noteq> Inr tree"
      unfolding ok by fastforce
    with visit_cases [of tree] show "\<exists>e. visit tree = Inl e"
      by blast
  qed
  have err: "\<forall>e. visit tree = Inl e \<longrightarrow>
           (\<exists>t\<in>set (subtrees tree). \<exists>a b k rest. data t = ''block'' \<and> children t = Tok k # rest
              \<and> block_labels t = Some (a, b) \<and> a \<noteq> b
              \<and> e = SemanticError (''['' @ str_nat (line k) @ '':'' @ str_nat (column k) @ '']: ''
                     @ ''Block numbers do not match: '' @ str_nat a @ '' vs '' @ str_nat b) k)"
  proof (intro allI impI)
    fix e
    assume "visit tree = Inl e"
    then have "visit_subtrees (iter_subtrees tree) = Inl e"
      by (simp add: visit_error_iff)
    from visit_subtrees_error [OF this] obtain t where t: "t \<in> set (subtrees tree)"
      and e: "call_userfunc t = Inl e"
      unfolding set_iter_subtrees by blast
    from call_userfunc_error [OF labelled [OF t] e] t
    show "\<exists>t\<in>set (subtrees tree). \<exists>a b k rest. data t = ''block'' \<and> children t = Tok k # rest
              \<and> block_labels t = Some (a, b) \<and> a \<noteq> b
              \<and> e = SemanticError (''['' @ str_nat (line k) @ '':'' @ str_nat (column k) @ '']: ''
                     @ ''Block numbers do not match: '' @ str_nat a @ '' vs '' @ str_nat b) k"
      by (rule_tac x = t in bexI)
  qed
  have m1: "\<forall>e transform n. visit tree = Inl e \<longrightarrow> main transform n tree = Inl e"
    by (simp add: main_def)
  have m2: "\<forall>transform n. visit tree = Inr tree \<longrightarrow>
           main transform n tree = Inr (main_run n (transform tree))"
    by (simp add: main_def)
  show ?thesis
    by (intro conjI ok rej err m1 m2)
qed

text \<open>
  A declaration whose block opens with label 0 at line 1, column 33, and closes with
  label 1: the visit raises the error for that position, and so does the main program.
\<close>

theorem block_validator_witness:
  "visit (Tree ''start'' [Sub (Tree ''decl''
       [Sub (Tree ''procname'' [Sub (Tree ''funcname'' [Tok (Token ''ANON'' ''f'' 1 19)])]),
        Sub (Tree ''params'' [Sub (Tree ''param'' [Tok (Token ''ANON'' ''X'' 1 23)])]),
        Sub (Tree ''block'' [Tok (Token ''NUMBER'' ''0'' 1 33),
           Sub (Tree ''stmt'' [Sub (Tree ''quit'' [Tok (Token ''NUMBER'' ''0'' 1 53)])]),
           Tok (Token ''NUMBER'' ''1'' 1 62)])])])
    = Inl (SemanticError ''[1:33]: Block numbers do not match: 0 vs 1'' (Token ''NUMBER'' ''0'' 1 33))
   \<and> main (\<lambda>t. []) 0 (Tree ''start'' [Sub (Tree ''decl''
       [Sub (Tree ''procname'' [Sub (Tree ''funcname'' [Tok (Token ''ANON'' ''f'' 1 19)])]),
        Sub (Tree ''params'' [Sub (Tree ''param'' [Tok (Token ''ANON'' ''X'' 1 23)])]),
        Sub (Tree ''block'' [Tok (Token ''NUMBER'' ''0'' 1 33),
           Sub (Tree ''stmt'' [Sub (Tree ''quit'' [Tok (Token ''NUMBER'' ''0'' 1 53)])]),
           Tok (Token ''NUMBER'' ''1'' 1 62)])])])
    = Inl (SemanticError ''[1:33]: Block numbers do not match: 0 vs 1'' (Token ''NUMBER'' ''0'' 1 33))"
proof -
  let ?tree = "Tree ''start'' [Sub (Tree ''decl''
       [Sub (Tree ''procname'' [Sub (Tree ''funcname'' [Tok (Token ''ANON'' ''f'' 1 19)])]),
        Sub (Tree ''params'' [Sub (Tree ''param'' [Tok (Token ''ANON'' ''X'' 1 23)])]),
        Sub (Tree ''block'' [Tok (Token ''NUMBER'' ''0'' 1 33),
           Sub (Tree ''stmt'' [Sub (Tree ''quit'' [Tok (Token ''NUMBER'' ''0'' 1 53)])]),
           Tok (Token ''NUMBER'' ''1'' 1 62)])])]"
  have wf: "wf_blocks ?tree"
    by code_simp
  have v: "visit ?tree
      = Inl (SemanticError ''[1:33]: Block numbers do not match: 0 vs 1'' (Token ''NUMBER'' ''0'' 1 33))"
    by code_simp
  from block_validator [OF wf, THEN conjunct2, THEN conjunct2, THEN conjunct2, THEN conjunct1,
      THEN spec, THEN spec, THEN spec, THEN mp, OF v]
  have "main (\<lambda>t. []) 0 ?tree
      = Inl (SemanticError ''[1:33]: Block numbers do not match: 0 vs 1'' (Token ''NUMBER'' ''0'' 1 33))" .
  with v show ?thesis
    by (intro conjI)
qed

section \<open>Reading cells\<close>

text \<open>
  C8. Reading a cell that the current cell dictionary does not hold raises Python's
  \<open>KeyError\<close> with the index of the cell (the specification's \<open>UninitializedCell\<close>);
  reading a cell that it holds returns the value. The error is fatal: the handlers of
  blocks, of both loops and of a call pass on every exception that is not \<open>Abort\<close> or
  \<open>Break\<close>, and at the top level it ends the run. The dictionary that a call creates
  for an activation holds the output cell -1 and nothing else, so every other cell is
  missing until assigned. The body of a procedure, run on that dictionary, never ends
  with the \<open>KeyError\<close> of cell -1, whatever it does and calls, and leaves cell -1 in
  the dictionary; in general, on a dictionary that holds cell -1, a read of the output
  returns a value, and a block neither fails on such a read nor takes cell -1 out.
\<close>

theorem uninitialized_cell_read:
  assumes c: "c < length h"
  shows "((h ! c) i = None \<longrightarrow>
            runinstr_expr (Suc n) (ECellfetch i) decls h c ps
              = Some (Raise (PyErr (KeyError (IntKey i))), h))
     \<and> (\<forall>v. (h ! c) i = Some v \<longrightarrow>
            runinstr_expr (Suc n) (ECellfetch i) decls h c ps = Some (Ret v, h))
     \<and> (run n stmts decls h c ps = Some (Raise (PyErr e), h')
          \<longrightarrow> runinstr_block (Suc n) (Block l stmts) decls h c ps = Some (Raise (PyErr e), h'))
     \<and> (runinstr_block n blk decls h c ps = Some (Raise (PyErr e), h')
          \<longrightarrow> mu_loop (Suc n) blk decls h c ps = Some (Raise (PyErr e), h')
            \<and> for_range (Suc n) (Suc k) blk decls h c ps = Some (Raise (PyErr e), h'))
     \<and> (runinstr_args n args decls h c ps = Some (Ret fa, ha) \<and> decls p = Some (fp, blk)
            \<and> runinstr_block n blk decls (ha @ [[-1 \<mapsto> default_output p]]) (length ha)
                 (dict_zip fp fa) = Some (Raise (PyErr e), h')
          \<longrightarrow> runinstr_expr (Suc n) (ECall p args) decls h c ps = Some (Raise (PyErr e), h'))
     \<and> (runinstr_expr n (ECall p args) decls h c ps = Some (Raise x, h')
          \<longrightarrow> run_top n (TCall p args # rest) res decls h c ps = Some (Raise x, decls, h'))
     \<and> dom ((h @ [[-1 \<mapsto> default_output p]]) ! length h) = {-1}
     \<and> (\<forall>r hr. runinstr_block n blk decls (h @ [[-1 \<mapsto> default_output p]]) (length h) pa
                  = Some (r, hr)
          \<longrightarrow> r \<noteq> Raise (PyErr (KeyError (IntKey (-1)))) \<and> -1 \<in> dom (hr ! length h))
     \<and> (-1 \<in> dom (h ! c) \<longrightarrow>
           (\<exists>v. runinstr_expr (Suc n) (ECellfetch (-1)) decls h c ps = Some (Ret v, h))
         \<and> (\<forall>r hr. runinstr_block n blk decls h c ps = Some (r, hr)
              \<longrightarrow> r \<noteq> Raise (PyErr (KeyError (IntKey (-1)))) \<and> -1 \<in> dom (hr ! c)))"
proof -
  have a: "(h ! c) i = None \<longrightarrow>
            runinstr_expr (Suc n) (ECellfetch i) decls h c ps
              = Some (Raise (PyErr (KeyError (IntKey i))), h)"
    by simp
  have a': "\<forall>v. (h ! c) i = Some v \<longrightarrow>
            runinstr_expr (Suc n) (ECellfetch i) decls h c ps = Some (Ret v, h)"
    by simp
  have f1: "run n stmts decls h c ps = Some (Raise (PyErr e), h')
          \<longrightarrow> runinstr_block (Suc n) (Block l stmts) decls h c ps = Some (Raise (PyErr e), h')"
    by simp
  have f2: "runinstr_block n blk decls h c ps = Some (Raise (PyErr e), h')
          \<longrightarrow> mu_loop (Suc n) blk decls h c ps = Some (Raise (PyErr e), h')
            \<and> for_range (Suc n) (Suc k) blk decls h c ps = Some (Raise (PyErr e), h')"
    by simp
  have f3: "runinstr_args n args decls h c ps = Some (Ret fa, ha) \<and> decls p = Some (fp, blk)
            \<and> runinstr_block n blk decls (ha @ [[-1 \<mapsto> default_output p]]) (length ha)
                 (dict_zip fp fa) = Some (Raise (PyErr e), h')
          \<longrightarrow> runinstr_expr (Suc n) (ECall p args) decls h c ps = Some (Raise (PyErr e), h')"
    by simp
  have f4: "runinstr_expr n (ECall p args) decls h c ps = Some (Raise x, h')
          \<longrightarrow> run_top n (TCall p args # rest) res decls h c ps = Some (Raise x, decls, h')"
    by simp
  have d: "dom ((h @ [[-1 \<mapsto> default_output p]]) ! length h) = {-1}"
    by simp
  have fresh: "\<forall>r hr. runinstr_block n blk decls (h @ [[-1 \<mapsto> default_output p]]) (length h) pa
                  = Some (r, hr)
          \<longrightarrow> r \<noteq> Raise (PyErr (KeyError (IntKey (-1)))) \<and> -1 \<in> dom (hr ! length h)"
  proof (intro allI impI)
    fix r hr
    assume body: "runinstr_block n blk decls (h @ [[-1 \<mapsto> default_output p]]) (length h) pa
        = Some (r, hr)"
    have c1: "length h < length (h @ [[-1 \<mapsto> default_output p]])"
      by simp
    have o1: "-1 \<in> dom ((h @ [[-1 \<mapsto> default_output p]]) ! length h)"
      by simp
    from block_reads_output [OF c1 o1 body] frame_dom [OF block_frame [OF c1 body] o1]
    show "r \<noteq> Raise (PyErr (KeyError (IntKey (-1)))) \<and> -1 \<in> dom (hr ! length h)"
      by (rule conjI)
  qed
  have inv: "-1 \<in> dom (h ! c) \<longrightarrow>
           (\<exists>v. runinstr_expr (Suc n) (ECellfetch (-1)) decls h c ps = Some (Ret v, h))
         \<and> (\<forall>r hr. runinstr_block n blk decls h c ps = Some (r, hr)
              \<longrightarrow> r \<noteq> Raise (PyErr (KeyError (IntKey (-1)))) \<and> -1 \<in> dom (hr ! c))"
  proof
    assume o: "-1 \<in> dom (h ! c)"
    then have rd: "\<exists>v. runinstr_expr (Suc n) (ECellfetch (-1)) decls h c ps = Some (Ret v, h)"
      by (auto simp: dom_def)
    have "\<forall>r hr. runinstr_block n blk decls h c ps = Some (r, hr)
              \<longrightarrow> r \<noteq> Raise (PyErr (KeyError (IntKey (-1)))) \<and> -1 \<in> dom (hr ! c)"
    proof (intro allI impI)
      fix r hr
      assume body: "runinstr_block n blk decls h c ps = Some (r, hr)"
      from block_reads_output [OF c o body] frame_dom [OF block_frame [OF c body] o]
      show "r \<noteq> Raise (PyErr (KeyError (IntKey (-1)))) \<and> -1 \<in> dom (hr ! c)"
        by (rule conjI)
    qed
    with rd show "(\<exists>v. runinstr_expr (Suc n) (ECellfetch (-1)) decls h c ps = Some (Ret v, h))
         \<and> (\<forall>r hr. runinstr_block n blk decls h c ps = Some (r, hr)
              \<longrightarrow> r \<noteq> Raise (PyErr (KeyError (IntKey (-1)))) \<and> -1 \<in> dom (hr ! c))"
      by (rule conjI)
  qed
  show ?thesis
    by (intro conjI a a' f1 f2 f3 f4 d fresh inv)
qed

text \<open>
  On a dictionary that holds only cell -1, reading cell 3 raises \<open>KeyError(3)\<close> and
  reading the output returns its value; a program whose procedure reads cell 3 ends with
  that error, and one whose procedure reads only the output returns the default 0.
\<close>

theorem uninitialized_cell_read_witness:
  "runinstr_expr (Suc 0) (ECellfetch 3) Map.empty [[-1 \<mapsto> IntV 0]] 0 Map.empty
     = Some (Raise (PyErr (KeyError (IntKey 3))), [[-1 \<mapsto> IntV 0]])
   \<and> runinstr_expr (Suc 0) (ECellfetch (-1)) Map.empty [[-1 \<mapsto> IntV 0]] 0 Map.empty
     = Some (Ret (IntV 0), [[-1 \<mapsto> IntV 0]])
   \<and> map_option fst (main_run 8
        [TDecl ''g'' [''X''] (Block 0 [SAssign (LCell (-1)) (ECellfetch 3)]),
         TCall ''g'' [ENum 1]]) = Some (Raise (PyErr (KeyError (IntKey 3))))
   \<and> map_option fst (main_run 8
        [TDecl ''g'' [''X''] (Block 0 [SAssign (LCell 0) (ECellfetch (-1))]),
         TCall ''g'' [ENum 1]]) = Some (Ret (Some (IntV 0)))"
proof -
  let ?h = "[[-1 \<mapsto> IntV 0]] :: heap"
  have c: "(0::nat) < length ?h"
    by simp
  have none: "(?h ! 0) 3 = None"
    by simp
  have some: "(?h ! 0) (-1) = Some (IntV 0)"
    by simp
  note t = uninitialized_cell_read [OF c, where n = 0 and decls = Map.empty and ps = Map.empty]
  have r3: "runinstr_expr (Suc 0) (ECellfetch 3) Map.empty ?h 0 Map.empty
     = Some (Raise (PyErr (KeyError (IntKey 3))), ?h)"
    by (rule t [THEN conjunct1, THEN mp, OF none])
  have ro: "runinstr_expr (Suc 0) (ECellfetch (-1)) Map.empty ?h 0 Map.empty
     = Some (Ret (IntV 0), ?h)"
    by (rule t [THEN conjunct2, THEN conjunct1, THEN spec, THEN mp, OF some])
  have m1: "map_option fst (main_run 8
        [TDecl ''g'' [''X''] (Block 0 [SAssign (LCell (-1)) (ECellfetch 3)]),
         TCall ''g'' [ENum 1]]) = Some (Raise (PyErr (KeyError (IntKey 3))))"
    by code_simp
  have m2: "map_option fst (main_run 8
        [TDecl ''g'' [''X''] (Block 0 [SAssign (LCell 0) (ECellfetch (-1))]),
         TCall ''g'' [ENum 1]]) = Some (Ret (Some (IntV 0)))"
    by code_simp
  show ?thesis
    by (intro conjI r3 ro m1 m2)
qed

end
